theory Spec2Isabelle
  imports Complex_Main
begin

section \<open>The test catalogue (TEST_IDS)\<close>

text \<open>
  The keys of the Python dictionary \<open>TEST_IDS\<close> of \<open>hardware_test.py\<close>. There is no T08.
  The dictionary keeps its insertion order, so it is an association list.
\<close>

datatype test_id = T01 | T02 | T03 | T04 | T05 | T06 | T07 | T09 | T10 | T11 | T12 | T13 | T14

definition TEST_IDS :: "(test_id \<times> string) list" where
  "TEST_IDS =
    [(T01, ''Firmware Upload''),
     (T02, ''CM5 LED Visual Check''),
     (T03, ''RGB LED Visual Check''),
     (T04, ''E-ink Display Refresh''),
     (T05, ''UI Appears''),
     (T06, ''Button Response''),
     (T07, ''Voice Transcribed''),
     (T09, ''USB MicroPython Detection''),
     (T10, ''USB Hub Detection''),
     (T11, ''USB Media Detection''),
     (T12, ''RGB LED SSH Test''),
     (T13, ''SD Card Detection''),
     (T14, ''Camera Detection'')]"

text \<open>The text of a key, as it is printed by an f-string.\<close>

fun test_id_str :: "test_id \<Rightarrow> string" where
  "test_id_str T01 = ''T01''"
| "test_id_str T02 = ''T02''"
| "test_id_str T03 = ''T03''"
| "test_id_str T04 = ''T04''"
| "test_id_str T05 = ''T05''"
| "test_id_str T06 = ''T06''"
| "test_id_str T07 = ''T07''"
| "test_id_str T09 = ''T09''"
| "test_id_str T10 = ''T10''"
| "test_id_str T11 = ''T11''"
| "test_id_str T12 = ''T12''"
| "test_id_str T13 = ''T13''"
| "test_id_str T14 = ''T14''"

section \<open>Python values and strings\<close>

text \<open>
  An entry of \<open>test_results\<close> is \<open>None\<close> (selected, not yet run), a boolean, or the string
  \<open>'SKIPPED'\<close>. The code tests such values for truth (\<open>all(...)\<close>, \<open>if result\<close>), so the
  model keeps Python's truth value of each.
\<close>

datatype result = PyNone | PyBool bool | PyStr string

abbreviation SKIPPED :: result where
  "SKIPPED \<equiv> PyStr ''SKIPPED''"

fun truthy :: "result \<Rightarrow> bool" where
  "truthy PyNone = False"
| "truthy (PyBool b) = b"
| "truthy (PyStr s) = (s \<noteq> [])"

text \<open>
  A character of the model is a code point below 256, and a string a list of them.
  \<open>str.strip()\<close> removes the characters for which \<open>str.isspace()\<close> holds: among these
  code points, the space, 0x09 to 0x0D, 0x1C to 0x1F, 0x85 and 0xA0. \<open>str.lower()\<close> maps
  \<open>A\<close> to \<open>Z\<close> and 0xC0 to 0xDE (0xD7 apart) to the code point 32 higher, and leaves the
  others as they are.
\<close>

definition is_space :: "char \<Rightarrow> bool" where
  "is_space c =
     (c \<in> set [CHR '' '', CHR 0x09, CHR 0x0A, CHR 0x0B, CHR 0x0C, CHR 0x0D,
                CHR 0x1C, CHR 0x1D, CHR 0x1E, CHR 0x1F, CHR 0x85, CHR 0xA0])"

definition strip :: "string \<Rightarrow> string" where
  "strip s = rev (dropWhile is_space (rev (dropWhile is_space s)))"

definition upper_latin :: string where
  "upper_latin =
     [CHR 0xC0, CHR 0xC1, CHR 0xC2, CHR 0xC3, CHR 0xC4, CHR 0xC5, CHR 0xC6, CHR 0xC7,
      CHR 0xC8, CHR 0xC9, CHR 0xCA, CHR 0xCB, CHR 0xCC, CHR 0xCD, CHR 0xCE, CHR 0xCF,
      CHR 0xD0, CHR 0xD1, CHR 0xD2, CHR 0xD3, CHR 0xD4, CHR 0xD5, CHR 0xD6, CHR 0xD8,
      CHR 0xD9, CHR 0xDA, CHR 0xDB, CHR 0xDC, CHR 0xDD, CHR 0xDE]"

definition lower_latin :: string where
  "lower_latin =
     [CHR 0xE0, CHR 0xE1, CHR 0xE2, CHR 0xE3, CHR 0xE4, CHR 0xE5, CHR 0xE6, CHR 0xE7,
      CHR 0xE8, CHR 0xE9, CHR 0xEA, CHR 0xEB, CHR 0xEC, CHR 0xED, CHR 0xEE, CHR 0xEF,
      CHR 0xF0, CHR 0xF1, CHR 0xF2, CHR 0xF3, CHR 0xF4, CHR 0xF5, CHR 0xF6, CHR 0xF8,
      CHR 0xF9, CHR 0xFA, CHR 0xFB, CHR 0xFC, CHR 0xFD, CHR 0xFE]"

definition lower_char :: "char \<Rightarrow> char" where
  "lower_char c =
     (case map_of (zip (''ABCDEFGHIJKLMNOPQRSTUVWXYZ'' @ upper_latin)
                       (''abcdefghijklmnopqrstuvwxyz'' @ lower_latin)) c of
        None \<Rightarrow> c
      | Some d \<Rightarrow> d)"

definition lower :: "string \<Rightarrow> string" where
  "lower s = map lower_char s"

text \<open>\<open>sub in s\<close> on strings: \<open>sub\<close> occurs in \<open>s\<close> as a contiguous block.\<close>

fun starts_with :: "string \<Rightarrow> string \<Rightarrow> bool" where
  "starts_with [] s = True"
| "starts_with (c # cs) [] = False"
| "starts_with (c # cs) (d # ds) = (c = d \<and> starts_with cs ds)"

fun contains :: "string \<Rightarrow> string \<Rightarrow> bool" where
  "contains sub [] = (sub = [])"
| "contains sub (c # cs) = (starts_with sub (c # cs) \<or> contains sub cs)"

text \<open>\<open>int(x)\<close> on a float: truncation towards zero.\<close>

definition py_int :: "real \<Rightarrow> int" where
  "py_int x = (if 0 \<le> x then \<lfloor>x\<rfloor> else \<lceil>x\<rceil>)"

definition newline :: char where
  "newline = CHR 0x0A"

definition apostrophe :: char where
  "apostrophe = CHR 0x27"

section \<open>The ledger: class TestResult\<close>

text \<open>
  A line of the log file. The source writes
  \<open>[timestamp] id: name - STATUS[ - Duration: ns][ - details]\<close>; the model keeps the parts
  and leaves the formatted timestamp out.
\<close>

record log_entry =
  le_test :: test_id
  le_name :: string
  le_status :: string
  le_duration :: "int option"
  le_details :: string

text \<open>
  The fields of \<open>TestResult\<close>. \<open>log_file\<close> holds the content of the file that
  \<open>self.log_file\<close> names, which is new (empty) when the object is built. The field
  \<open>notes\<close> is called \<open>notes_text\<close> here. The fields \<open>timestamp\<close> and \<open>video_file\<close>
  play no part in the control flow and are left out.
\<close>

record TestResult =
  device_id :: nat
  version :: "string option"
  manufacture_id :: "string option"
  test_results :: "test_id \<rightharpoonup> result"
  test_durations :: "test_id \<rightharpoonup> int option"
  tests_to_run :: "test_id set"
  overall_pass :: bool
  notes_text :: string
  log_file :: "log_entry list"

text \<open>One round of the loop \<open>for test_id in TEST_IDS\<close> of \<open>__init__\<close>.\<close>

definition init_entry ::
  "test_id set \<Rightarrow> (test_id \<rightharpoonup> result) \<times> (test_id \<rightharpoonup> int option) \<Rightarrow> test_id
    \<Rightarrow> (test_id \<rightharpoonup> result) \<times> (test_id \<rightharpoonup> int option)" where
  "init_entry sel acc t =
     (if t \<in> sel then ((fst acc)(t \<mapsto> PyNone), (snd acc)(t \<mapsto> None))
      else ((fst acc)(t \<mapsto> SKIPPED), (snd acc)(t \<mapsto> Some 0)))"

definition TestResult_init ::
  "nat \<Rightarrow> test_id set \<Rightarrow> string option \<Rightarrow> string option \<Rightarrow> TestResult" where
  "TestResult_init dev sel ver man =
     (let acc = foldl (init_entry sel) (Map.empty, Map.empty) (map fst TEST_IDS)
      in \<lparr>device_id = dev, version = ver, manufacture_id = man,
          test_results = fst acc, test_durations = snd acc, tests_to_run = sel,
          overall_pass = False, notes_text = [], log_file = []\<rparr>)"

section \<open>The world the program runs in\<close>

text \<open>
  What the transport does at one call: it returns (standard output and standard error),
  or it raises an exception with the given text.
\<close>

datatype ssh_outcome = Returns string string | Raises string

datatype ssh_event = Connect | ExecCommand string | InvokeShell string | Close

text \<open>What running \<open>ampy put\<close> on one file of PYTHON_FILES gives.\<close>

datatype ampy_outcome = FileMissing | ExitZero | ExitNonzero | AmpyRaises string

text \<open>
  The results of the volume polling, file copy and port search that
  \<open>upload_firmware_wipe\<close> calls, in the order of its calls.
\<close>

record fw_env =
  rp2_found :: bool
  nuke_flashed :: bool
  rp2_disappeared :: bool
  rp2_reappeared :: bool
  micropython_flashed :: bool
  uart_ports :: "string list"
  ampy_put :: "string \<Rightarrow> ampy_outcome"

text \<open>A row of the spreadsheet: the dictionary \<open>data\<close> of \<open>save_to_excel\<close>.\<close>

record row =
  row_device_id :: nat
  row_version :: string
  row_manufacture_id :: string
  row_results :: "(test_id \<times> string) list"
  row_failed_tests :: string
  row_overall_pass :: bool
  row_notes :: string
  row_durations :: "(test_id \<times> int) list"

text \<open>
  The state of one pass through the main loop: the ledger and the flag \<open>restart_test\<close> of
  \<open>main\<close>, and the world around them. \<open>stdin\<close> holds the lines the operator will type;
  \<open>prompts\<close> the prompts \<open>input()\<close> has shown, oldest first, and \<open>dialogue\<close> each of
  them with the line typed in answer (\<open>None\<close> when the input had ended). The \<open>n\<close>-th call of
  \<open>time.time()\<close> returns \<open>clock n\<close>, the \<open>n\<close>-th call of the transport does \<open>ssh_env n\<close>.
  \<open>excel\<close> is the content of the spreadsheet. \<open>v_ssh\<close>, \<open>v_output\<close> and \<open>v_error\<close>
  are the local variables \<open>ssh\<close>, \<open>output\<close> and \<open>error\<close> of \<open>perform_ssh_tests\<close>: its
  exception handler reads \<open>ssh\<close> as the failing statement left it. A client is the
  number of the transport call that connected it; \<open>None\<close> is Python's \<open>None\<close>.
\<close>

record state =
  test_result :: TestResult
  restart_test :: bool
  stdin :: "string list"
  prompts :: "string list"
  dialogue :: "(string \<times> string option) list"
  clock :: "nat \<Rightarrow> real"
  ticks :: nat
  ssh_env :: "nat \<Rightarrow> ssh_outcome"
  ssh_ops :: nat
  ssh_trace :: "ssh_event list"
  fw :: fw_env
  excel :: "row list"
  v_ssh :: "nat option"
  v_output :: string
  v_error :: string

section \<open>Statements that complete abruptly\<close>

text \<open>
  A statement returns a value, or it completes abruptly: it raises an exception (with the
  text \<open>str(e)\<close>), or it executes \<open>continue\<close> or \<open>break\<close> of the main loop. The state
  is kept in both cases.
\<close>

datatype abrupt = Raised string | Continue | Break

type_synonym 'a comp = "state \<Rightarrow> (abrupt + 'a) \<times> state"

definition return :: "'a \<Rightarrow> 'a comp" where
  "return x s = (Inr x, s)"

definition abrupt :: "abrupt \<Rightarrow> 'a comp" where
  "abrupt a s = (Inl a, s)"

definition andthen :: "'a comp \<Rightarrow> ('a \<Rightarrow> 'b comp) \<Rightarrow> 'b comp" where
  "andthen m f s = (case m s of (Inl a, s') \<Rightarrow> (Inl a, s') | (Inr x, s') \<Rightarrow> f x s')"

text \<open>\<open>try: m except Exception as e: h\<close>. Only exceptions are caught.\<close>

definition try_except :: "'a comp \<Rightarrow> (string \<Rightarrow> 'a comp) \<Rightarrow> 'a comp" where
  "try_except m h s =
     (case m s of (Inl (Raised e), s') \<Rightarrow> h e s' | (r, s') \<Rightarrow> (r, s'))"

definition modify :: "(state \<Rightarrow> state) \<Rightarrow> unit comp" where
  "modify f s = (Inr (), f s)"

definition get :: "(state \<Rightarrow> 'a) \<Rightarrow> 'a comp" where
  "get f s = (Inr (f s), s)"

definition when_do :: "bool \<Rightarrow> unit comp \<Rightarrow> unit comp" where
  "when_do b m = (if b then m else return ())"

section \<open>Operator input and the clock\<close>

definition input :: "string \<Rightarrow> string comp" where
  "input prompt s =
     (case stdin s of
        [] \<Rightarrow> (Inl (Raised ''EOF when reading a line''),
                s\<lparr>prompts := prompts s @ [prompt],
                  dialogue := dialogue s @ [(prompt, None)]\<rparr>)
      | l # ls \<Rightarrow> (Inr l, s\<lparr>stdin := ls, prompts := prompts s @ [prompt],
                            dialogue := dialogue s @ [(prompt, Some l)]\<rparr>))"

definition time_time :: "real comp" where
  "time_time s = (Inr (clock s (ticks s)), s\<lparr>ticks := Suc (ticks s)\<rparr>)"

text \<open>\<open>int(time.time() - start_time)\<close>\<close>

definition elapsed :: "real \<Rightarrow> int comp" where
  "elapsed start_time = andthen time_time (\<lambda>now. return (py_int (now - start_time)))"

definition wait_for_enter :: "string \<Rightarrow> unit comp" where
  "wait_for_enter prompt =
     andthen (input (prompt @ '' Press Enter when ready: '')) (\<lambda>_. return ())"

definition continue_prompt :: string where
  "continue_prompt = ''Test failed. Do you want to continue testing? (y/n): ''"

text \<open>
  The loop \<open>while True\<close> of \<open>get_yes_no_input\<close>. Each round reads a line; the loop ends
  when the line is an answer, or when the input has ended and \<open>input()\<close> raises.
\<close>

function get_yes_no_loop :: "string \<Rightarrow> bool \<Rightarrow> real \<Rightarrow> (bool option \<times> int) comp" where
  "get_yes_no_loop prompt allow_continue_check start_time s =
     (case input (prompt @ '' (y/n): '') s of
        (Inl a, s1) \<Rightarrow> (Inl a, s1)
      | (Inr line, s1) \<Rightarrow>
          (let response = lower (strip line) in
           if response \<in> set [''y'', ''yes''] then
             andthen (elapsed start_time) (\<lambda>d. return (Some True, d)) s1
           else if response \<in> set [''n'', ''no''] then
             (if allow_continue_check then
                andthen (input continue_prompt) (\<lambda>line2.
                  let continue_test = lower (strip line2) in
                  if continue_test \<notin> set [''y'', ''yes''] then
                    andthen (elapsed start_time) (\<lambda>d. return (None, d))
                  else andthen (elapsed start_time) (\<lambda>d. return (Some False, d))) s1
              else andthen (elapsed start_time) (\<lambda>d. return (Some False, d)) s1)
           else get_yes_no_loop prompt allow_continue_check start_time s1))"
  by pat_completeness auto
termination
  by (relation "measure (\<lambda>(p, a, t, s). length (stdin s))")
     (auto simp: input_def split: list.splits)

declare get_yes_no_loop.simps [simp del]

definition get_yes_no_input :: "string \<Rightarrow> bool \<Rightarrow> (bool option \<times> int) comp" where
  "get_yes_no_input prompt allow_continue_check =
     andthen time_time (\<lambda>start_time. get_yes_no_loop prompt allow_continue_check start_time)"

section \<open>Recording a result: set_test_result\<close>

definition status_text :: "result \<Rightarrow> string" where
  "status_text result =
     (if truthy result then ''PASS'' else if result \<noteq> PyNone then ''FAIL'' else ''SKIPPED'')"

text \<open>
  The two dictionaries are written first; \<open>TEST_IDS[test_id]\<close> is read after that, and
  raises KeyError for a key that the catalogue does not have.
\<close>

definition set_test_result :: "test_id \<Rightarrow> result \<Rightarrow> string \<Rightarrow> int option \<Rightarrow> unit comp" where
  "set_test_result tid result details duration s =
     (let tr = test_result s;
          tr1 = tr\<lparr>test_results := (test_results tr)(tid \<mapsto> result)\<rparr>;
          tr2 = (case duration of
                   None \<Rightarrow> tr1
                 | Some d \<Rightarrow> tr1\<lparr>test_durations := (test_durations tr1)(tid \<mapsto> Some d)\<rparr>)
      in case map_of TEST_IDS tid of
           None \<Rightarrow> (Inl (Raised (apostrophe # test_id_str tid @ [apostrophe])),
                     s\<lparr>test_result := tr2\<rparr>)
         | Some name \<Rightarrow>
             (Inr (),
              s\<lparr>test_result := tr2\<lparr>log_file := log_file tr2 @
                   [\<lparr>le_test = tid, le_name = name, le_status = status_text result,
                     le_duration = duration, le_details = details\<rparr>]\<rparr>\<rparr>))"

definition selected :: "test_id \<Rightarrow> bool comp" where
  "selected tid = get (\<lambda>s. tid \<in> tests_to_run (test_result s))"

text \<open>\<open>if 'Txx' in test_result.tests_to_run: ...\<close>\<close>

definition if_selected :: "test_id \<Rightarrow> unit comp \<Rightarrow> unit comp" where
  "if_selected tid m = andthen (selected tid) (\<lambda>b. when_do b m)"

definition add_note :: "string \<Rightarrow> unit comp" where
  "add_note text =
     modify (\<lambda>s. s\<lparr>test_result := (test_result s)\<lparr>notes_text := notes_text (test_result s) @ text\<rparr>\<rparr>)"

section \<open>Finalizing: save_to_excel\<close>

text \<open>\<open>test_result.test_results.values()\<close>, in the order the keys were inserted.\<close>

definition values_of :: "TestResult \<Rightarrow> result list" where
  "values_of tr = List.map_filter (test_results tr) (map fst TEST_IDS)"

text \<open>Lines 616 and 617: the values that are not \<open>None\<close>, and \<open>all\<close> of them.\<close>

definition compute_overall_pass :: "TestResult \<Rightarrow> bool" where
  "compute_overall_pass tr =
     (let test_results_values = filter (\<lambda>v. v \<noteq> PyNone) (values_of tr)
      in if test_results_values \<noteq> [] then list_all truthy test_results_values else False)"

definition result_cell :: "result option \<Rightarrow> string" where
  "result_cell r =
     (case r of
        None \<Rightarrow> ''NOT RUN''
      | Some v \<Rightarrow>
          if v = SKIPPED then ''SKIPPED''
          else if v = PyNone then ''NOT RUN''
          else if truthy v then ''PASS'' else ''FAIL'')"

definition duration_cell :: "result option \<Rightarrow> int option option \<Rightarrow> int" where
  "duration_cell r d =
     (if r = Some SKIPPED \<or> r = None \<or> r = Some PyNone then 0
      else case d of Some (Some n) \<Rightarrow> n | _ \<Rightarrow> 0)"

fun join :: "string \<Rightarrow> string list \<Rightarrow> string" where
  "join sep [] = []"
| "join sep [x] = x"
| "join sep (x # y # ys) = x @ sep @ join sep (y # ys)"

definition failed_tests_of :: "TestResult \<Rightarrow> string list" where
  "failed_tests_of tr =
     map (\<lambda>(tid, name). test_id_str tid @ ''('' @ name @ '')'')
       (filter (\<lambda>(tid, name). test_results tr tid = Some (PyBool False)) TEST_IDS)"

definition row_of :: "TestResult \<Rightarrow> row" where
  "row_of tr =
     \<lparr>row_device_id = device_id tr,
      row_version = (case version tr of None \<Rightarrow> [] | Some v \<Rightarrow> v),
      row_manufacture_id = (case manufacture_id tr of None \<Rightarrow> [] | Some v \<Rightarrow> v),
      row_results = map (\<lambda>(tid, name). (tid, result_cell (test_results tr tid))) TEST_IDS,
      row_failed_tests =
        (let failed_tests = failed_tests_of tr
         in if failed_tests \<noteq> [] then join '', '' failed_tests else ''None''),
      row_overall_pass = overall_pass tr,
      row_notes = notes_text tr,
      row_durations =
        map (\<lambda>(tid, name). (tid, duration_cell (test_results tr tid) (test_durations tr tid)))
          TEST_IDS\<rparr>"

text \<open>
  \<open>save_to_excel\<close> computes \<open>overall_pass\<close> and appends the row to the rows the file
  holds. The columns Timestamp, Log File and Video File and the cell formats are left out.
\<close>

definition save_to_excel :: "unit comp" where
  "save_to_excel s =
     (let tr = (test_result s)\<lparr>overall_pass := compute_overall_pass (test_result s)\<rparr>
      in (Inr (), s\<lparr>test_result := tr, excel := excel s @ [row_of tr]\<rparr>))"

section \<open>Firmware: upload_firmware_wipe\<close>

definition PYTHON_FILES :: "string list" where
  "PYTHON_FILES =
    [''bin/loading1.bin'', ''bin/loading2.bin'', ''eink_driver_sam.py'',
     ''pamir_uart_protocols.py'', ''neopixel_controller.py'', ''power_manager.py'',
     ''battery.py'', ''debug_handler.py'', ''uart_handler.py'',
     ''threaded_task_manager.py'', ''main.py'']"

text \<open>
  The three lines that every failing path of \<open>upload_firmware_wipe\<close> repeats:
  take the duration, record T01 as failed with the detail, return \<open>False\<close>.
\<close>

definition fail_T01 :: "real \<Rightarrow> string \<Rightarrow> bool comp" where
  "fail_T01 start_time details =
     andthen (elapsed start_time) (\<lambda>duration.
     andthen (set_test_result T01 (PyBool False) details (Some duration)) (\<lambda>_.
     return False))"

text \<open>
  The loop over PYTHON_FILES. It returns \<open>True\<close> when the loop has ended, and \<open>False\<close>
  when the function has returned \<open>False\<close> from inside it.
\<close>

fun upload_python_files :: "string list \<Rightarrow> real \<Rightarrow> bool comp" where
  "upload_python_files [] start_time s = (Inr True, s)"
| "upload_python_files (filename # rest) start_time s =
     (case ampy_put (fw s) filename of
        FileMissing \<Rightarrow> upload_python_files rest start_time s
      | ExitZero \<Rightarrow> upload_python_files rest start_time s
      | ExitNonzero \<Rightarrow> fail_T01 start_time (''Failed to upload '' @ filename) s
      | AmpyRaises e \<Rightarrow>
          fail_T01 start_time (''Exception uploading '' @ filename @ '': '' @ e) s)"

definition upload_firmware_wipe :: "bool comp" where
  "upload_firmware_wipe =
     andthen time_time (\<lambda>start_time.
     andthen (get fw) (\<lambda>e.
       if \<not> rp2_found e then fail_T01 start_time ''No RPI-RP2 volume found''
       else if \<not> nuke_flashed e then fail_T01 start_time ''Flash nuke failed''
       else if \<not> rp2_disappeared e then
         fail_T01 start_time ''Device did not disappear after flash nuke''
       else if \<not> rp2_reappeared e then
         fail_T01 start_time ''Device did not reappear after flash nuke''
       else if \<not> micropython_flashed e then
         fail_T01 start_time ''MicroPython firmware flash failed''
       else if uart_ports e = [] then fail_T01 start_time ''No UART port found''
       else
         andthen (upload_python_files PYTHON_FILES start_time) (\<lambda>uploaded.
           if uploaded then
             andthen (elapsed start_time) (\<lambda>duration.
             andthen (set_test_result T01 (PyBool True) ''All files uploaded successfully''
                        (Some duration)) (\<lambda>_.
             return True))
           else return False)))"

section \<open>The remote session\<close>

definition CM5_IP_ADDRESS :: string where
  "CM5_IP_ADDRESS = ''distiller@192.168.0.30''"

definition RGB_LED_TEST_PATH :: string where
  "RGB_LED_TEST_PATH =
     ''/opt/distiller-cm5-sdk/src/distiller_cm5_sdk/hardware/sam/led_interactive_demo.py''"

definition RGB_LED_NUM_ENTERS :: nat where
  "RGB_LED_NUM_ENTERS = 10"

text \<open>
  One call of the transport (paramiko): the call is written to the trace, and the world
  decides whether it returns or raises.
\<close>

definition transport :: "ssh_event \<Rightarrow> (string \<times> string) comp" where
  "transport ev s =
     (let s' = s\<lparr>ssh_ops := Suc (ssh_ops s), ssh_trace := ssh_trace s @ [ev]\<rparr>
      in case ssh_env s (ssh_ops s) of
           Returns out err \<Rightarrow> (Inr (out, err), s')
         | Raises e \<Rightarrow> (Inl (Raised e), s'))"

text \<open>The text of the AttributeError that a method call on \<open>None\<close> raises.\<close>

definition none_has_no_attribute :: "string \<Rightarrow> string" where
  "none_has_no_attribute a =
     apostrophe # ''NoneType'' @ apostrophe # '' object has no attribute '' @
     apostrophe # a @ [apostrophe]"

text \<open>
  The body of the \<open>try\<close> of \<open>ssh_execute_command\<close>: \<open>exec_command\<close>, the optional
  Enter key, and the reading and decoding of both streams. Any of them may raise.
\<close>

definition exec_command :: "nat option \<Rightarrow> string \<Rightarrow> bool \<Rightarrow> (string \<times> string) comp" where
  "exec_command ssh_client command send_enter =
     (case ssh_client of
        None \<Rightarrow> abrupt (Raised (none_has_no_attribute ''exec_command''))
      | Some c \<Rightarrow> transport (ExecCommand command))"

definition ssh_execute_command :: "nat option \<Rightarrow> string \<Rightarrow> bool \<Rightarrow> (string \<times> string) comp" where
  "ssh_execute_command ssh_client command send_enter =
     try_except (exec_command ssh_client command send_enter)
       (\<lambda>e. return ([], ''SSH_ERROR: '' @ e))"

text \<open>
  The body of the \<open>try\<close> of \<open>ssh_execute_interactive\<close>: the shell channel, the command,
  the Enter keys and the collected output, as one call of the transport.
\<close>

definition invoke_shell :: "nat option \<Rightarrow> string \<Rightarrow> nat \<Rightarrow> string comp" where
  "invoke_shell ssh_client command num_enters =
     (case ssh_client of
        None \<Rightarrow> abrupt (Raised (none_has_no_attribute ''invoke_shell''))
      | Some c \<Rightarrow> andthen (transport (InvokeShell command)) (\<lambda>(out, err). return out))"

definition ssh_execute_interactive ::
  "nat option \<Rightarrow> string \<Rightarrow> nat \<Rightarrow> real \<Rightarrow> (string \<times> string) comp" where
  "ssh_execute_interactive ssh_client command num_enters enter_delay =
     try_except
       (andthen (invoke_shell ssh_client command num_enters) (\<lambda>output. return (output, [])))
       (\<lambda>e. return ([], e))"

text \<open>
  The loop \<open>for attempt in range(max_attempts)\<close> of \<open>reconnect_ssh\<close>, over the attempts
  that are left.
\<close>

fun reconnect_attempts :: "nat list \<Rightarrow> nat \<Rightarrow> nat option comp" where
  "reconnect_attempts [] max_attempts s = (Inr None, s)"
| "reconnect_attempts (attempt # rest) max_attempts s =
     (case transport Connect s of
        (Inr r, s1) \<Rightarrow> (Inr (Some (ssh_ops s)), s1)
      | (Inl (Raised e), s1) \<Rightarrow>
          if int attempt < int max_attempts - 1 then
            (case wait_for_enter (newline # ''Press Enter to retry SSH connection'') s1 of
               (Inl a, s2) \<Rightarrow> (Inl a, s2)
             | (Inr u, s2) \<Rightarrow> reconnect_attempts rest max_attempts s2)
          else (Inr None, s1)
      | (Inl a, s1) \<Rightarrow> (Inl a, s1))"

definition reconnect_ssh :: "nat \<Rightarrow> nat option comp" where
  "reconnect_ssh max_attempts = reconnect_attempts [0..<max_attempts] max_attempts"

section \<open>The remote checks: perform_ssh_tests\<close>

text \<open>\<open>if ssh: ssh.close()\<close>\<close>

definition close_ssh :: "unit comp" where
  "close_ssh s =
     (case v_ssh s of
        None \<Rightarrow> (Inr (), s)
      | Some c \<Rightarrow> (Inr (), s\<lparr>ssh_trace := ssh_trace s @ [Close]\<rparr>))"

text \<open>\<open>output, error = ssh_execute_command(ssh, command)\<close>\<close>

definition run_command :: "string \<Rightarrow> unit comp" where
  "run_command command =
     andthen (get v_ssh) (\<lambda>ssh.
     andthen (ssh_execute_command ssh command False) (\<lambda>(out, err).
     modify (\<lambda>s. s\<lparr>v_output := out, v_error := err\<rparr>)))"

text \<open>\<open>output, error = ssh_execute_interactive(ssh, command, num_enters, 0.5)\<close>\<close>

definition run_interactive :: "string \<Rightarrow> unit comp" where
  "run_interactive command =
     andthen (get v_ssh) (\<lambda>ssh.
     andthen (ssh_execute_interactive ssh command RGB_LED_NUM_ENTERS (1 / 2)) (\<lambda>(out, err).
     modify (\<lambda>s. s\<lparr>v_output := out, v_error := err\<rparr>)))"

text \<open>
  The block that follows four of the commands:
  \<open>if "SSH_ERROR" in error: if ssh: ssh.close(); ssh = reconnect_ssh(test_result);
  if ssh: retry else: otherwise\<close>.
\<close>

definition on_ssh_error :: "unit comp \<Rightarrow> unit comp \<Rightarrow> unit comp" where
  "on_ssh_error retry otherwise =
     andthen (get v_error) (\<lambda>error.
     when_do (contains ''SSH_ERROR'' error)
       (andthen close_ssh (\<lambda>_.
        andthen (reconnect_ssh 5) (\<lambda>ssh.
        andthen (modify (\<lambda>s. s\<lparr>v_ssh := ssh\<rparr>)) (\<lambda>_.
        if ssh \<noteq> None then retry else otherwise)))))"

definition ssh_test_ids :: "test_id list" where
  "ssh_test_ids = [T09, T10, T11, T12, T13, T14]"

text \<open>The loop that marks the remote checks as failed (lines 471 to 473).\<close>

fun mark_ssh_failed :: "test_id list \<Rightarrow> unit comp" where
  "mark_ssh_failed [] = return ()"
| "mark_ssh_failed (tid # rest) =
     andthen (if_selected tid (set_test_result tid (PyBool False) ''SSH connection failed'' (Some 0)))
       (\<lambda>_. mark_ssh_failed rest)"

definition check_usb_devices :: "unit comp" where
  "check_usb_devices =
     andthen (run_command ''lsusb'') (\<lambda>_.
     on_ssh_error (run_command ''lsusb'') (return ()))"

definition test_T09 :: "unit comp" where
  "test_T09 =
     if_selected T09
       (andthen time_time (\<lambda>start_time.
        andthen (get v_output) (\<lambda>output.
        let usb_micropython = contains ''MicroPython Board in FS mode'' output in
        andthen (elapsed start_time) (\<lambda>duration.
        set_test_result T09 (PyBool usb_micropython)
          (''lsusb output: '' @ take 100 output @ ''...'') (Some duration)))))"

definition test_T10 :: "unit comp" where
  "test_T10 =
     if_selected T10
       (andthen time_time (\<lambda>start_time.
        andthen (get v_output) (\<lambda>output.
        let usb_hub = contains ''QinHeng Electronics USB HUB'' output in
        andthen (elapsed start_time) (\<lambda>duration.
        set_test_result T10 (PyBool usb_hub) [] (Some duration)))))"

definition test_T11 :: "unit comp" where
  "test_T11 =
     if_selected T11
       (andthen time_time (\<lambda>start_time.
        andthen (get v_output) (\<lambda>output.
        let usb_media =
              contains ''Microchip Technology, Inc. (formerly SMSC) Ultra Fast Media'' output in
        andthen (elapsed start_time) (\<lambda>duration.
        set_test_result T11 (PyBool usb_media) [] (Some duration)))))"

definition rgb_led_check_command :: string where
  "rgb_led_check_command =
     ''test -f '' @ RGB_LED_TEST_PATH @ '' && echo '' @ apostrophe # ''EXISTS'' @
     apostrophe # '' || echo '' @ apostrophe # ''NOT_FOUND'' @ [apostrophe]"

definition py_of_answer :: "bool option \<Rightarrow> result" where
  "py_of_answer r = (case r of None \<Rightarrow> PyNone | Some b \<Rightarrow> PyBool b)"

definition test_T12 :: "unit comp" where
  "test_T12 =
     if_selected T12
       (andthen time_time (\<lambda>start_time.
        andthen (get v_ssh) (\<lambda>ssh.
        andthen (ssh_execute_command ssh rgb_led_check_command False) (\<lambda>(check_output, check_error).
        if contains ''NOT_FOUND'' check_output then
          andthen (elapsed start_time) (\<lambda>duration.
          set_test_result T12 (PyBool False) ''Script not found'' (Some duration))
        else
          andthen (run_interactive (''python3 '' @ RGB_LED_TEST_PATH)) (\<lambda>_.
          andthen (on_ssh_error (run_interactive (''python3 '' @ RGB_LED_TEST_PATH)) (return ())) (\<lambda>_.
          andthen (get_yes_no_input ''Did you see the RGB LED cycle through different colors?'' False)
            (\<lambda>(rgb_led_result, question_duration).
          andthen (elapsed start_time) (\<lambda>total_duration.
          set_test_result T12 (py_of_answer rgb_led_result) [] (Some total_duration)))))))))"

definition test_T13 :: "unit comp" where
  "test_T13 =
     if_selected T13
       (andthen time_time (\<lambda>start_time.
        andthen (run_command ''lsblk'') (\<lambda>_.
        andthen (on_ssh_error (run_command ''lsblk'')
                   (andthen (elapsed start_time) (\<lambda>duration.
                    set_test_result T13 (PyBool False) ''SSH reconnection failed'' (Some duration))))
          (\<lambda>_.
        andthen (get (\<lambda>s. s)) (\<lambda>s.
        when_do (v_ssh s \<noteq> None \<and> \<not> contains ''SSH_ERROR'' (v_error s))
          (let sd_card_result = contains ''sda1'' (v_output s) in
           andthen (elapsed start_time) (\<lambda>duration.
           set_test_result T13 (PyBool sd_card_result)
             (''lsblk output: '' @ take 100 (v_output s) @ ''...'') (Some duration))))))))"

definition test_T14 :: "unit comp" where
  "test_T14 =
     if_selected T14
       (andthen time_time (\<lambda>start_time.
        andthen (run_command ''libcamera-hello'') (\<lambda>_.
        andthen (on_ssh_error (run_command ''libcamera-hello'')
                   (andthen (elapsed start_time) (\<lambda>duration.
                    set_test_result T14 (PyBool False) ''SSH reconnection failed'' (Some duration))))
          (\<lambda>_.
        andthen (get (\<lambda>s. s)) (\<lambda>s.
        when_do (v_ssh s \<noteq> None \<and> \<not> contains ''SSH_ERROR'' (v_error s))
          (let camera_result = \<not> contains ''ERROR: *** no cameras available ***'' (v_error s) in
           andthen (elapsed start_time) (\<lambda>duration.
           set_test_result T14 (PyBool camera_result)
             (if v_error s \<noteq> [] then take 100 (v_error s) else ''Camera OK'') (Some duration))))))))"

text \<open>The body of the \<open>try\<close> of \<open>perform_ssh_tests\<close> (lines 478 to 602).\<close>

definition ssh_tests_body :: "bool comp" where
  "ssh_tests_body =
     andthen check_usb_devices (\<lambda>_.
     andthen test_T09 (\<lambda>_.
     andthen test_T10 (\<lambda>_.
     andthen test_T11 (\<lambda>_.
     andthen test_T12 (\<lambda>_.
     andthen test_T13 (\<lambda>_.
     andthen test_T14 (\<lambda>_.
     andthen close_ssh (\<lambda>_.
     return True))))))))"

definition perform_ssh_tests :: "bool comp" where
  "perform_ssh_tests =
     andthen (reconnect_ssh 5) (\<lambda>ssh.
     andthen (modify (\<lambda>s. s\<lparr>v_ssh := ssh\<rparr>)) (\<lambda>_.
     if ssh = None then
       andthen (add_note '' Initial SSH connection failed after 5 attempts.'') (\<lambda>_.
       andthen (mark_ssh_failed ssh_test_ids) (\<lambda>_.
       return False))
     else
       try_except ssh_tests_body
         (\<lambda>e. andthen (add_note ('' SSH error: '' @ e)) (\<lambda>_.
               andthen close_ssh (\<lambda>_.
               return True)))))"

section \<open>The sequencer: one pass of the loop of main\<close>

text \<open>
  The block that T02 to T07 share: ask the operator; on the restart signal set
  \<open>restart_test\<close>, save and \<open>continue\<close>; otherwise record the answer. The block gives the
  answer back, which T05 keeps in \<open>ui_appears\<close>.
\<close>

definition operator_check :: "test_id \<Rightarrow> string \<Rightarrow> bool comp" where
  "operator_check tid prompt =
     andthen (get_yes_no_input prompt True) (\<lambda>(result, duration).
     case result of
       None \<Rightarrow>
         andthen (modify (\<lambda>s. s\<lparr>restart_test := True\<rparr>)) (\<lambda>_.
         andthen save_to_excel (\<lambda>_.
         abrupt Continue))
     | Some b \<Rightarrow>
         andthen (set_test_result tid (PyBool b) [] (Some duration)) (\<lambda>_.
         return b))"

definition visual_check :: "test_id \<Rightarrow> string \<Rightarrow> unit comp" where
  "visual_check tid prompt =
     if_selected tid (andthen (operator_check tid prompt) (\<lambda>_. return ()))"

text \<open>Step 1 (lines 822 to 832).\<close>

definition firmware_step :: "unit comp" where
  "firmware_step =
     if_selected T01
       (andthen (wait_for_enter ''Put the board into bootloader mode and connect to computer.'') (\<lambda>_.
        andthen upload_firmware_wipe (\<lambda>firmware_success.
        when_do (\<not> firmware_success)
          (andthen (modify (\<lambda>s. s\<lparr>test_result :=
                      (test_result s)\<lparr>notes_text := ''Firmware upload failed''\<rparr>\<rparr>)) (\<lambda>_.
           andthen save_to_excel (\<lambda>_.
           abrupt Continue))))))"

text \<open>Step 2 (lines 835 to 837).\<close>

definition hardware_assembly :: "unit comp" where
  "hardware_assembly =
     andthen (get (\<lambda>s. tests_to_run (test_result s))) (\<lambda>sel.
     when_do (list_ex (\<lambda>t. t \<in> sel) [T02, T03, T04, T05, T06, T07])
       (wait_for_enter (newline #
          ''Unplug the board and insert: battery, camera module, e-ink display, SD card, and CM5.'')))"

text \<open>Step 3 (lines 840 to 869).\<close>

definition visual_checks :: "unit comp" where
  "visual_checks =
     andthen (visual_check T02 ''Does the CM5 LED light up?'') (\<lambda>_.
     andthen (visual_check T03 ''Does the RGB LED light up?'') (\<lambda>_.
     visual_check T04 ''Does the e-ink bootup screen appear?''))"

text \<open>Step 4 (lines 872 to 916).\<close>

definition ui_tests :: "unit comp" where
  "ui_tests =
     andthen (selected T05) (\<lambda>t05_selected.
     andthen (if t05_selected
              then operator_check T05 ''Wait for WIFI UI to show up. Does the WIFI UI appear?''
              else return False) (\<lambda>ui_appears.
     when_do (ui_appears \<or> \<not> t05_selected)
       (andthen (visual_check T06 ''Press a button. Does the button show on dmesg?'') (\<lambda>_.
        visual_check T07 ''Was your voice successfully transcribed?''))))"

text \<open>Step 5 (lines 920 to 926).\<close>

definition ssh_step :: "unit comp" where
  "ssh_step =
     andthen (get (\<lambda>s. tests_to_run (test_result s))) (\<lambda>sel.
     when_do (list_ex (\<lambda>t. t \<in> sel) [T09, T10, T11, T12, T13, T14])
       (andthen perform_ssh_tests (\<lambda>ok.
        when_do (\<not> ok) (add_note '' SSH tests incomplete.''))))"

text \<open>Lines 821 to 916: the groups that need no remote session, in their order.\<close>

definition local_tests :: "unit comp" where
  "local_tests =
     andthen firmware_step (\<lambda>_.
     andthen hardware_assembly (\<lambda>_.
     andthen visual_checks (\<lambda>_.
     ui_tests)))"

text \<open>Lines 821 to 926: all the groups.\<close>

definition run_tests :: "unit comp" where
  "run_tests = andthen local_tests (\<lambda>_. ssh_step)"

text \<open>Lines 821 to 936: the groups, and the results saved.\<close>

definition run_and_save :: "unit comp" where
  "run_and_save = andthen run_tests (\<lambda>_. save_to_excel)"

text \<open>Lines 945 to 964: the shutdown of the CM5 and the question for another device.\<close>

definition shutdown_cm5 :: "unit comp" where
  "shutdown_cm5 =
     try_except
       (andthen (reconnect_ssh 3) (\<lambda>ssh.
        when_do (ssh \<noteq> None)
          (andthen (ssh_execute_command ssh ''sudo shutdown now'' False) (\<lambda>_.
           modify (\<lambda>s. s\<lparr>ssh_trace := ssh_trace s @ [Close]\<rparr>)))))
       (\<lambda>e. return ())"

definition wrap_up :: "unit comp" where
  "wrap_up =
     andthen (input (newline # ''Press Enter to safely shutdown the CM5, or '' @ apostrophe #
                ''n'' @ apostrophe # '' to skip: '')) (\<lambda>line.
     andthen (when_do (lower (strip line) \<noteq> ''n'') shutdown_cm5) (\<lambda>_.
     andthen (input (newline # ''Do you want to test another device? (y/n): '')) (\<lambda>line2.
     when_do (lower (strip line2) \<notin> set [''y'', ''yes'']) (abrupt Break))))"

definition main_try_body :: "unit comp" where
  "main_try_body = andthen run_and_save (\<lambda>_. wrap_up)"

text \<open>The handler \<open>except Exception as e\<close> of main (lines 972 to 977).\<close>

definition main_except :: "string \<Rightarrow> unit comp" where
  "main_except e =
     andthen (add_note ('' Error: '' @ e)) (\<lambda>_.
     andthen save_to_excel (\<lambda>_.
     andthen (input ''Press Enter to restart testing...'') (\<lambda>_.
     return ())))"

text \<open>
  One pass of \<open>while True\<close>, from the new ledger on. \<open>tests_to_run\<close> and \<open>device_id\<close> are
  what \<open>select_tests_to_run\<close> and \<open>get_device_id_with_qr\<close> have returned. The pass ends
  normally or with \<open>Continue\<close> (the loop goes on with a new selection and a new ledger),
  with \<open>Break\<close> (the loop ends), or with an exception that leaves main.
\<close>

definition main_pass :: "test_id set \<Rightarrow> nat \<Rightarrow> unit comp" where
  "main_pass sel dev =
     andthen (modify (\<lambda>s. s\<lparr>test_result := TestResult_init dev sel None None,
                              restart_test := False\<rparr>)) (\<lambda>_.
     try_except main_try_body main_except)"

section \<open>Example worlds\<close>

text \<open>
  A programmer in which every step of the firmware upload succeeds, a network on which
  every call of the transport times out, and the state in which a pass starts: device 1,
  a new ledger, nothing asked and nothing saved yet, a clock that advances by one second
  at every reading.
\<close>

definition fw_all_ok :: fw_env where
  "fw_all_ok =
     \<lparr>rp2_found = True, nuke_flashed = True, rp2_disappeared = True, rp2_reappeared = True,
      micropython_flashed = True, uart_ports = [''/dev/tty.usbmodem1''],
      ampy_put = (\<lambda>f. ExitZero)\<rparr>"

definition ssh_down :: "nat \<Rightarrow> ssh_outcome" where
  "ssh_down n = Raises ''timed out''"

definition fresh_state ::
  "test_id set \<Rightarrow> string list \<Rightarrow> (nat \<Rightarrow> ssh_outcome) \<Rightarrow> fw_env \<Rightarrow> state" where
  "fresh_state sel lines env fwe =
     \<lparr>test_result = TestResult_init 1 sel None None, restart_test = False, stdin = lines,
      prompts = [], dialogue = [], clock = (\<lambda>n. real n), ticks = 0, ssh_env = env, ssh_ops = 0,
      ssh_trace = [], fw = fwe, excel = [], v_ssh = None, v_output = [], v_error = []\<rparr>"

text \<open>
  A network on which the connection, \<open>lsusb\<close>, the check for the LED script and the LED
  program work, and on which \<open>lsblk\<close> fails at the first run and at the run after the
  reconnection.
\<close>

definition ssh_lsblk_fails :: "nat \<Rightarrow> ssh_outcome" where
  "ssh_lsblk_fails n =
     (if n = 2 then Returns ''EXISTS'' []
      else if n = 4 \<or> n = 6 then Raises ''Socket is closed''
      else Returns [] [])"


text \<open>
  A network that connects and runs \<open>lsusb\<close>, then is down for the next six calls, and
  works again after that.
\<close>

definition ssh_drops_at_lsblk :: "nat \<Rightarrow> ssh_outcome" where
  "ssh_drops_at_lsblk n =
     (if n = 0 \<or> n = 1 \<or> 8 \<le> n then Returns [] [] else Raises ''Socket is closed'')"

text \<open>A network that connects and runs \<open>lsusb\<close>, and is down from then on.\<close>

definition ssh_drops_after_lsusb :: "nat \<Rightarrow> ssh_outcome" where
  "ssh_drops_after_lsusb n =
     (if n = 0 \<or> n = 1 then Returns [] [] else Raises ''Socket is closed'')"

text \<open>
  A clock that is set back (by the time service, say) after its first reading: it reads 100,
  then 98.
\<close>

definition clock_set_back :: "nat \<Rightarrow> real" where
  "clock_set_back n = (if n = 0 then 100 else 98)"

text \<open>
  Scenario B: the operator presses Enter when the board is assembled, answers No to the
  first question and declines to continue. And a session in which the operator answers
  Yes five times, No to the last question and presses Enter at the question whether to
  continue.
\<close>

definition scenario_B :: state where
  "scenario_B = fresh_state {} [[], ''N'', ''stop''] ssh_down fw_all_ok"

definition stop_at_T07 :: state where
  "stop_at_T07 =
     fresh_state {} [[], ''y'', ''y'', ''y'', ''y'', ''y'', '' no '', []] ssh_down fw_all_ok"

text \<open>
  A session with two checks: Enter when the board is assembled, Yes to the first question,
  No to the second and Yes to go on, then no shutdown and no other device.
\<close>

definition two_checks :: state where
  "two_checks = fresh_state {} [[], ''y'', ''n'', ''y'', ''n'', ''n''] ssh_down fw_all_ok"

section \<open>Predicates used in the proofs\<close>

text \<open>
  A property of a statement is a relation between the state before it, the way it
  completes (\<open>None\<close> when it completes normally) and the state after it. \<open>sat R m\<close>
  says that every run of \<open>m\<close> is in \<open>R\<close>. A relation is \<open>closed\<close> when it holds for a
  statement that does nothing and is kept by running one statement after another, also
  when the second one is the handler of an exception that the first one raised.
\<close>

definition outcome :: "(abrupt + 'a) \<Rightarrow> abrupt option" where
  "outcome r = (case r of Inl a \<Rightarrow> Some a | Inr x \<Rightarrow> None)"

definition sat :: "(state \<Rightarrow> abrupt option \<Rightarrow> state \<Rightarrow> bool) \<Rightarrow> 'a comp \<Rightarrow> bool" where
  "sat R m = (\<forall>s. R s (outcome (fst (m s))) (snd (m s)))"

definition closed :: "(state \<Rightarrow> abrupt option \<Rightarrow> state \<Rightarrow> bool) \<Rightarrow> bool" where
  "closed R =
     ((\<forall>s. R s None s) \<and>
      (\<forall>s a s1 b s2. R s a s1 \<and> (a = None \<or> (\<exists>e. a = Some (Raised e))) \<and> R s1 b s2
          \<longrightarrow> R s b s2))"

text \<open>
  The statement leaves the ledger, the spreadsheet and the flag \<open>restart_test\<close> as they
  are, and neither continues nor breaks the loop.
\<close>

definition keeps_ledger :: "state \<Rightarrow> abrupt option \<Rightarrow> state \<Rightarrow> bool" where
  "keeps_ledger s a s' =
     (test_result s' = test_result s \<and> excel s' = excel s \<and> restart_test s' = restart_test s \<and>
      (a = None \<or> (\<exists>e. a = Some (Raised e))))"

text \<open>The statement does not restart the session.\<close>

definition no_restart :: "state \<Rightarrow> abrupt option \<Rightarrow> state \<Rightarrow> bool" where
  "no_restart s a s' =
     (a \<noteq> Some Continue \<and> restart_test s' = restart_test s \<and> excel s' = excel s)"

text \<open>The statement keeps an invariant of the state.\<close>

definition preserves :: "(state \<Rightarrow> bool) \<Rightarrow> state \<Rightarrow> abrupt option \<Rightarrow> state \<Rightarrow> bool" where
  "preserves I s a s' = (I s \<longrightarrow> I s')"

text \<open>A line that \<open>get_yes_no_input\<close> takes as an answer.\<close>

definition is_answer :: "string \<Rightarrow> bool" where
  "is_answer line = (lower (strip line) \<in> set [''y'', ''yes'', ''n'', ''no''])"

text \<open>
  The entries of the tests that are not selected: the row shows them as skipped with
  duration 0; the ledger holds them as skipped with duration 0, nothing was logged for
  them, and so do the rows that were added to the rows \<open>ex0\<close>.
\<close>

definition skipped_row :: "test_id set \<Rightarrow> row \<Rightarrow> bool" where
  "skipped_row sel r =
     (\<forall>t. t \<notin> sel \<longrightarrow> (t, ''SKIPPED'') \<in> set (row_results r) \<and> (t, 0) \<in> set (row_durations r))"

definition skipped_fixed :: "test_id set \<Rightarrow> row list \<Rightarrow> state \<Rightarrow> bool" where
  "skipped_fixed sel ex0 s =
     (tests_to_run (test_result s) = sel \<and>
      (\<forall>t. t \<notin> sel \<longrightarrow>
         test_results (test_result s) t = Some SKIPPED \<and>
         test_durations (test_result s) t = Some (Some 0) \<and>
         t \<notin> le_test ` set (log_file (test_result s))) \<and>
      (\<exists>rows. excel s = ex0 @ rows \<and> list_all (skipped_row sel) rows))"

text \<open>
  The ledger after \<open>set_test_result\<close> with a duration, for a key of the catalogue.
\<close>

definition recorded :: "test_id \<Rightarrow> result \<Rightarrow> string \<Rightarrow> int \<Rightarrow> TestResult \<Rightarrow> TestResult" where
  "recorded tid r details d tr =
     tr\<lparr>test_results := (test_results tr)(tid \<mapsto> r),
        test_durations := (test_durations tr)(tid \<mapsto> Some d),
        log_file := log_file tr @
          [\<lparr>le_test = tid, le_name = the (map_of TEST_IDS tid), le_status = status_text r,
            le_duration = Some d, le_details = details\<rparr>]\<rparr>"


text \<open>
  The ledger after the loop that marks the remote checks as failed (\<open>mark_ssh_failed\<close>).
\<close>

fun marked :: "test_id list \<Rightarrow> TestResult \<Rightarrow> TestResult" where
  "marked [] tr = tr"
| "marked (t # ts) tr =
     marked ts (if t \<in> tests_to_run tr
                then recorded t (PyBool False) ''SSH connection failed'' 0 tr else tr)"

text \<open>The prompt that \<open>reconnect_ssh\<close> shows between two attempts.\<close>

definition retry_prompt :: string where
  "retry_prompt = newline # ''Press Enter to retry SSH connection Press Enter when ready: ''"

text \<open>
  Between the states \<open>s\<close> and \<open>s'\<close> the operator was asked the yes/no question \<open>p\<close>.
\<close>

definition asked :: "string \<Rightarrow> state \<Rightarrow> state \<Rightarrow> bool" where
  "asked p s s' = (p @ '' (y/n): '' \<in> set (drop (length (prompts s)) (prompts s')))"

text \<open>
  An exchange of the dialogue in which the operator declines to continue: the prompt is
  the one that asks whether to continue, and the line typed is not \<open>y\<close> or \<open>yes\<close>.
\<close>

definition declined :: "string \<times> string option \<Rightarrow> bool" where
  "declined x =
     (fst x = continue_prompt \<and>
      (case snd x of None \<Rightarrow> False | Some b \<Rightarrow> lower (strip b) \<notin> set [''y'', ''yes'']))"

text \<open>The statement adds no exchange to the dialogue in which the operator declines.\<close>

definition calm :: "state \<Rightarrow> abrupt option \<Rightarrow> state \<Rightarrow> bool" where
  "calm s a s' = (\<exists>d. dialogue s' = dialogue s @ d \<and> \<not> list_ex declined d)"

text \<open>
  Either the statement adds no such exchange, and leaves the spreadsheet and
  \<open>restart_test\<close> as they are unless it ends with \<open>continue\<close>; or the last exchange it
  adds is the only such one, and it ends with \<open>continue\<close>, with \<open>restart_test\<close> set and
  the ledger finalized and saved as one more row.
\<close>

definition stop_rel :: "state \<Rightarrow> abrupt option \<Rightarrow> state \<Rightarrow> bool" where
  "stop_rel s a s' =
     (\<exists>d. dialogue s' = dialogue s @ d \<and>
        ((\<not> list_ex declined d \<and>
          (a \<noteq> Some Continue \<longrightarrow> excel s' = excel s \<and> restart_test s' = restart_test s)) \<or>
         (d \<noteq> [] \<and> declined (last d) \<and> \<not> list_ex declined (butlast d) \<and>
          a = Some Continue \<and> restart_test s' \<and>
          excel s' = excel s @ [row_of (test_result s')] \<and>
          overall_pass (test_result s') = compute_overall_pass (test_result s'))))"

text \<open>
  The place of a test in the order in which the sequencer runs the tests.
\<close>

fun run_order :: "test_id \<Rightarrow> nat" where
  "run_order T01 = 1"
| "run_order T02 = 2"
| "run_order T03 = 3"
| "run_order T04 = 4"
| "run_order T05 = 5"
| "run_order T06 = 6"
| "run_order T07 = 7"
| "run_order T09 = 9"
| "run_order T10 = 10"
| "run_order T11 = 11"
| "run_order T12 = 12"
| "run_order T13 = 13"
| "run_order T14 = 14"

text \<open>
  The ledger of a session with the selection \<open>sel\<close>, at a point where only tests before
  the place \<open>k\<close> can have been recorded: the log holds the recorded tests in their order,
  each of them once and each of them selected, with the status that the ledger holds for
  it; and the entry of a test that is not in the log is as \<open>__init__\<close> has set it.
\<close>

definition once :: "test_id set \<Rightarrow> nat \<Rightarrow> state \<Rightarrow> bool" where
  "once sel k s =
     (tests_to_run (test_result s) = sel \<and>
      sorted_wrt (<) (map (\<lambda>e. run_order (le_test e)) (log_file (test_result s))) \<and>
      (\<forall>e \<in> set (log_file (test_result s)). le_test e \<in> sel \<and> run_order (le_test e) < k) \<and>
      (\<forall>e \<in> set (log_file (test_result s)).
         \<exists>r. test_results (test_result s) (le_test e) = Some r \<and> le_status e = status_text r) \<and>
      (\<forall>t. t \<notin> le_test ` set (log_file (test_result s)) \<longrightarrow>
         test_results (test_result s) t = Some (if t \<in> sel then PyNone else SKIPPED)))"

text \<open>
  \<open>hoare P m Q\<close>: from a state in \<open>P\<close> the statement \<open>m\<close> leads to a state in \<open>Q\<close>, however
  it completes.
\<close>

definition hoare :: "(state \<Rightarrow> bool) \<Rightarrow> 'a comp \<Rightarrow> (state \<Rightarrow> bool) \<Rightarrow> bool" where
  "hoare P m Q = (\<forall>s. P s \<longrightarrow> Q (snd (m s)))"

section \<open>Rules for statements\<close>

named_theorems sat_intros

lemmas str_defs =
  strip_def lower_def lower_char_def is_space_def upper_latin_def lower_latin_def

lemma outcome_simps [simp]: "outcome (Inl a) = Some a" "outcome (Inr x) = None"
  by (simp_all add: outcome_def)

lemma satD: "sat R m \<Longrightarrow> R s (outcome (fst (m s))) (snd (m s))"
  by (simp add: sat_def)

lemma closed_refl: "closed R \<Longrightarrow> R s None s"
  by (simp add: closed_def)

lemma closed_trans:
  "closed R \<Longrightarrow> R s None s1 \<Longrightarrow> R s1 b s2 \<Longrightarrow> R s b s2"
  unfolding closed_def by blast

lemma closed_catch:
  "closed R \<Longrightarrow> R s (Some (Raised e)) s1 \<Longrightarrow> R s1 b s2 \<Longrightarrow> R s b s2"
  unfolding closed_def by blast

lemma sat_return [sat_intros]: "closed R \<Longrightarrow> sat R (return x)"
  by (simp add: sat_def return_def closed_refl)

lemma sat_get [sat_intros]: "closed R \<Longrightarrow> sat R (get f)"
  by (simp add: sat_def get_def closed_refl)

lemma sat_andthen [sat_intros]:
  assumes "closed R" "sat R m" "\<And>x. sat R (f x)"
  shows "sat R (andthen m f)"
  unfolding sat_def
proof
  fix s
  obtain r s1 where ms: "m s = (r, s1)" by (cases "m s")
  from assms(2) have R1: "R s (outcome r) s1" using satD [of R m s] ms by simp
  show "R s (outcome (fst (andthen m f s))) (snd (andthen m f s))"
  proof (cases r)
    case (Inl a)
    with ms R1 show ?thesis by (simp add: andthen_def)
  next
    case (Inr x)
    from assms(3) have "R s1 (outcome (fst (f x s1))) (snd (f x s1))" by (rule satD)
    with R1 Inr assms(1) have "R s (outcome (fst (f x s1))) (snd (f x s1))"
      using closed_trans by fastforce
    with ms Inr show ?thesis by (simp add: andthen_def)
  qed
qed

lemma sat_try_except [sat_intros]:
  assumes "closed R" "sat R m" "\<And>e. sat R (h e)"
  shows "sat R (try_except m h)"
  unfolding sat_def
proof
  fix s
  obtain r s1 where ms: "m s = (r, s1)" by (cases "m s")
  from assms(2) have R1: "R s (outcome r) s1" using satD [of R m s] ms by simp
  show "R s (outcome (fst (try_except m h s))) (snd (try_except m h s))"
  proof (cases "\<exists>e. r = Inl (Raised e)")
    case True
    then obtain e where e: "r = Inl (Raised e)" by blast
    from assms(3) have "R s1 (outcome (fst (h e s1))) (snd (h e s1))" by (rule satD)
    with R1 e assms(1) have "R s (outcome (fst (h e s1))) (snd (h e s1))"
      using closed_catch by fastforce
    with ms e show ?thesis by (simp add: try_except_def)
  next
    case False
    then have "try_except m h s = (r, s1)"
      using ms by (auto simp: try_except_def split: sum.splits abrupt.splits)
    with R1 show ?thesis by simp
  qed
qed

lemma sat_when_do [sat_intros]: "closed R \<Longrightarrow> (b \<Longrightarrow> sat R m) \<Longrightarrow> sat R (when_do b m)"
  by (simp add: when_do_def sat_return)

lemma sat_if [sat_intros]:
  "(c \<Longrightarrow> sat R a) \<Longrightarrow> (\<not> c \<Longrightarrow> sat R b) \<Longrightarrow> sat R (if c then a else b)"
  by simp

lemma sat_case_prod [sat_intros]:
  "(\<And>a b. sat R (f a b)) \<Longrightarrow> sat R (case p of (a, b) \<Rightarrow> f a b)"
  by (cases p) simp

lemma sat_case_option [sat_intros]:
  "(x = None \<Longrightarrow> sat R a) \<Longrightarrow> (\<And>y. x = Some y \<Longrightarrow> sat R (f y))
     \<Longrightarrow> sat R (case x of None \<Rightarrow> a | Some y \<Rightarrow> f y)"
  by (cases x) simp_all

lemma sat_Let [sat_intros]: "sat R (f x) \<Longrightarrow> sat R (Let x f)"
  by simp

lemma sat_raise: "(\<And>s. R s (Some a) s) \<Longrightarrow> sat R (abrupt a)"
  by (simp add: sat_def abrupt_def)

lemma sat_modify: "(\<And>s. R s None (f s)) \<Longrightarrow> sat R (modify f)"
  by (simp add: sat_def modify_def)

lemma closed_keeps_ledger [sat_intros]: "closed keeps_ledger"
  by (auto simp: closed_def keeps_ledger_def)

text \<open>The operations on the world leave the ledger alone.\<close>

lemma keeps_input [sat_intros]: "sat keeps_ledger (input p)"
  by (simp add: sat_def input_def keeps_ledger_def split: list.splits)

lemma keeps_time_time [sat_intros]: "sat keeps_ledger time_time"
  by (simp add: sat_def time_time_def keeps_ledger_def)

lemma keeps_transport [sat_intros]: "sat keeps_ledger (transport ev)"
  by (simp add: sat_def transport_def keeps_ledger_def Let_def split: ssh_outcome.splits)

lemma keeps_close_ssh [sat_intros]: "sat keeps_ledger close_ssh"
  by (simp add: sat_def close_ssh_def keeps_ledger_def split: option.splits)

lemma keeps_elapsed [sat_intros]: "sat keeps_ledger (elapsed t)"
  unfolding elapsed_def by (intro sat_intros)

lemma keeps_wait_for_enter [sat_intros]: "sat keeps_ledger (wait_for_enter p)"
  unfolding wait_for_enter_def by (intro sat_intros)

lemma get_yes_no_loop_Nil:
  "stdin s = [] \<Longrightarrow>
   get_yes_no_loop p a t s =
     (Inl (Raised ''EOF when reading a line''), s\<lparr>prompts := prompts s @ [p @ '' (y/n): ''],
        dialogue := dialogue s @ [(p @ '' (y/n): '', None)]\<rparr>)"
  by (subst get_yes_no_loop.simps) (simp add: input_def)

lemma get_yes_no_loop_Cons:
  "stdin s = l # ls \<Longrightarrow>
   get_yes_no_loop p a t s =
     (let s1 = s\<lparr>stdin := ls, prompts := prompts s @ [p @ '' (y/n): ''],
        dialogue := dialogue s @ [(p @ '' (y/n): '', Some l)]\<rparr>;
          response = lower (strip l)
      in if response \<in> set [''y'', ''yes''] then
           andthen (elapsed t) (\<lambda>d. return (Some True, d)) s1
         else if response \<in> set [''n'', ''no''] then
           (if a then
              andthen (input continue_prompt) (\<lambda>line2.
                let continue_test = lower (strip line2) in
                if continue_test \<notin> set [''y'', ''yes''] then
                  andthen (elapsed t) (\<lambda>d. return (None, d))
                else andthen (elapsed t) (\<lambda>d. return (Some False, d))) s1
            else andthen (elapsed t) (\<lambda>d. return (Some False, d)) s1)
         else get_yes_no_loop p a t s1)"
  by (subst get_yes_no_loop.simps) (simp add: input_def Let_def)

lemma keeps_get_yes_no_loop [sat_intros]: "sat keeps_ledger (get_yes_no_loop p a t)"
proof -
  have "keeps_ledger s (outcome (fst (get_yes_no_loop p a t s))) (snd (get_yes_no_loop p a t s))" for s
  proof (induction "stdin s" arbitrary: s)
    case Nil
    then have "stdin s = []" by simp
    then show ?case by (simp add: get_yes_no_loop_Nil keeps_ledger_def)
  next
    case (Cons l ls)
    let ?s1 = "s\<lparr>stdin := ls, prompts := prompts s @ [p @ '' (y/n): ''],
        dialogue := dialogue s @ [(p @ '' (y/n): '', Some l)]\<rparr>"
    have e: "sat keeps_ledger (andthen (elapsed t) (\<lambda>d. return (x, d)))" for x :: "bool option"
      by (intro sat_intros)
    have c: "sat keeps_ledger (andthen (input continue_prompt) (\<lambda>line2.
                let continue_test = lower (strip line2) in
                if continue_test \<notin> set [''y'', ''yes''] then
                  andthen (elapsed t) (\<lambda>d. return (None, d))
                else andthen (elapsed t) (\<lambda>d. return (Some False, d))))"
      by (intro sat_intros)
    have ih: "keeps_ledger ?s1 (outcome (fst (get_yes_no_loop p a t ?s1)))
                (snd (get_yes_no_loop p a t ?s1))"
      using Cons.hyps(1) [of ?s1] by simp
    have tr: "keeps_ledger s b s2" if "keeps_ledger ?s1 b s2" for b s2
      using that by (simp add: keeps_ledger_def)
    show ?case
      unfolding get_yes_no_loop_Cons [OF Cons.hyps(2) [symmetric]] Let_def
      using satD [OF e, where s = ?s1] satD [OF c, where s = ?s1] ih
      by (auto simp: Let_def intro!: tr)
  qed
  then show ?thesis by (simp add: sat_def)
qed

lemma keeps_get_yes_no_input [sat_intros]: "sat keeps_ledger (get_yes_no_input p a)"
  unfolding get_yes_no_input_def by (intro sat_intros)

lemma keeps_reconnect_attempts [sat_intros]: "sat keeps_ledger (reconnect_attempts as n)"
proof -
  have "keeps_ledger s (outcome (fst (reconnect_attempts as n s))) (snd (reconnect_attempts as n s))" for s
  proof (induction as arbitrary: s)
    case Nil
    show ?case by (simp add: keeps_ledger_def)
  next
    case (Cons attempt rest)
    obtain r s1 where t: "transport Connect s = (r, s1)" by (cases "transport Connect s")
    have k1: "keeps_ledger s (outcome r) s1"
      using satD [OF keeps_transport, where s = s and ev1 = Connect] t by simp
    obtain r2 s2 where w: "wait_for_enter (newline # ''Press Enter to retry SSH connection'') s1 = (r2, s2)"
      by (cases "wait_for_enter (newline # ''Press Enter to retry SSH connection'') s1")
    have k2: "keeps_ledger s1 (outcome r2) s2"
      using satD [OF keeps_wait_for_enter, where s = s1
                  and p1 = "newline # ''Press Enter to retry SSH connection''"] w
      by simp
    from k1 k2 Cons [of s2] show ?case
      by (auto simp: t w keeps_ledger_def split: sum.splits abrupt.splits)
  qed
  then show ?thesis by (simp add: sat_def)
qed

lemma keeps_reconnect_ssh [sat_intros]: "sat keeps_ledger (reconnect_ssh n)"
  unfolding reconnect_ssh_def by (rule keeps_reconnect_attempts)

lemma keeps_exec_command [sat_intros]: "sat keeps_ledger (exec_command c cmd se)"
  unfolding exec_command_def
  by (intro sat_intros sat_raise) (simp add: keeps_ledger_def)

lemma keeps_ssh_execute_command [sat_intros]: "sat keeps_ledger (ssh_execute_command c cmd se)"
  unfolding ssh_execute_command_def by (intro sat_intros)

lemma keeps_invoke_shell [sat_intros]: "sat keeps_ledger (invoke_shell c cmd n)"
  unfolding invoke_shell_def
  by (intro sat_intros sat_raise) (simp add: keeps_ledger_def)

lemma keeps_ssh_execute_interactive [sat_intros]:
  "sat keeps_ledger (ssh_execute_interactive c cmd n d)"
  unfolding ssh_execute_interactive_def by (intro sat_intros)

lemma keeps_run_command [sat_intros]: "sat keeps_ledger (run_command cmd)"
  unfolding run_command_def
  by (intro sat_intros sat_modify) (simp add: keeps_ledger_def)

lemma keeps_run_interactive [sat_intros]: "sat keeps_ledger (run_interactive cmd)"
  unfolding run_interactive_def
  by (intro sat_intros sat_modify) (simp add: keeps_ledger_def)

section \<open>The plain remote command never raises\<close>

lemma starts_with_append: "starts_with sub (sub @ r)"
  by (induction sub) auto

lemma contains_prefix: "contains sub (sub @ r)"
proof (cases "sub @ r")
  case Nil
  then show ?thesis by simp
next
  case (Cons c cs)
  have "starts_with sub (sub @ r)" by (rule starts_with_append)
  with Cons show ?thesis by simp
qed

lemma exec_command_cases:
  "(\<exists>out err. fst (exec_command c cmd se s) = Inr (out, err)) \<or>
   (\<exists>e. fst (exec_command c cmd se s) = Inl (Raised e))"
  by (auto simp: exec_command_def transport_def abrupt_def Let_def
           split: option.splits ssh_outcome.splits)

text \<open>
  C9. Whatever the client (a connected one or \<open>None\<close>), the command and the transport do,
  \<open>ssh_execute_command\<close> returns a pair of output and error: it completes normally, never
  with an exception. When the body of its \<open>try\<close> raises an exception with text \<open>e\<close>, the
  pair is the empty output and the error \<open>SSH_ERROR: e\<close>, in which the caller finds the
  marker \<open>SSH_ERROR\<close>.
\<close>

theorem ssh_execute_command_never_raises:
  "(\<exists>out err. fst (ssh_execute_command c cmd se s) = Inr (out, err)) \<and>
   (\<forall>e. fst (exec_command c cmd se s) = Inl (Raised e) \<longrightarrow>
        fst (ssh_execute_command c cmd se s) = Inr ([], ''SSH_ERROR: '' @ e) \<and>
        contains ''SSH_ERROR'' (snd (projr (fst (ssh_execute_command c cmd se s)))))"
proof -
  have raised: "fst (ssh_execute_command c cmd se s) = Inr ([], ''SSH_ERROR: '' @ e)"
    if "fst (exec_command c cmd se s) = Inl (Raised e)" for e
    using that by (cases "exec_command c cmd se s")
      (simp add: ssh_execute_command_def try_except_def return_def)
  have returned: "fst (ssh_execute_command c cmd se s) = Inr (out, err)"
    if "fst (exec_command c cmd se s) = Inr (out, err)" for out err
    using that by (cases "exec_command c cmd se s")
      (simp add: ssh_execute_command_def try_except_def return_def)
  have mark: "contains ''SSH_ERROR'' (''SSH_ERROR: '' @ e)" for e
    using contains_prefix [of "''SSH_ERROR''" "'': '' @ e"] by simp
  from exec_command_cases [of c cmd se s] raised returned
  have "\<exists>out err. fst (ssh_execute_command c cmd se s) = Inr (out, err)"
    by metis
  with raised mark show ?thesis by simp
qed

theorem ssh_execute_command_never_raises_witness:
  "fst (exec_command (Some 0) ''lsusb'' False (fresh_state {T09} [] ssh_down fw_all_ok))
     = Inl (Raised ''timed out'') \<and>
   fst (ssh_execute_command (Some 0) ''lsusb'' False (fresh_state {T09} [] ssh_down fw_all_ok))
     = Inr ([], ''SSH_ERROR: timed out'')"
  using ssh_execute_command_never_raises
          [of "Some 0" "''lsusb''" False "fresh_state {T09} [] ssh_down fw_all_ok"]
  by (simp add: exec_command_def transport_def fresh_state_def ssh_down_def)

section \<open>The prompt without the continue check, and the remote checks\<close>

lemma closed_no_restart [sat_intros]: "closed no_restart"
  by (auto simp: closed_def no_restart_def)

lemma keeps_imp_no_restart:
  assumes "sat keeps_ledger m"
  shows "sat no_restart m"
  unfolding sat_def
proof
  fix s
  from satD [OF assms, of s]
  show "no_restart s (outcome (fst (m s))) (snd (m s))"
    by (auto simp: keeps_ledger_def no_restart_def)
qed

lemmas io_keeps = keeps_input keeps_time_time keeps_transport keeps_close_ssh keeps_elapsed
  keeps_wait_for_enter keeps_get_yes_no_input keeps_reconnect_ssh keeps_ssh_execute_command
  keeps_ssh_execute_interactive keeps_run_command keeps_run_interactive

lemmas io_no_restart = io_keeps [THEN keeps_imp_no_restart]

lemma map_of_TEST_IDS: "\<exists>name. map_of TEST_IDS tid = Some name"
  by (cases tid) (simp_all add: TEST_IDS_def)

lemma no_restart_set_test_result: "sat no_restart (set_test_result tid r d n)"
  using map_of_TEST_IDS [of tid]
  by (auto simp: sat_def set_test_result_def no_restart_def Let_def split: option.splits)

lemma no_restart_add_note: "sat no_restart (add_note t)"
  by (simp add: sat_def add_note_def modify_def no_restart_def)

lemma no_restart_set_ssh: "sat no_restart (modify (\<lambda>s. s\<lparr>v_ssh := x\<rparr>))"
  by (simp add: sat_def modify_def no_restart_def)

lemmas no_restart_intros = sat_intros io_no_restart no_restart_set_test_result
  no_restart_add_note no_restart_set_ssh

lemma no_restart_mark_ssh_failed: "sat no_restart (mark_ssh_failed ts)"
  by (induction ts) (auto simp: if_selected_def selected_def intro!: no_restart_intros)

lemma no_restart_on_ssh_error:
  "sat no_restart retry \<Longrightarrow> sat no_restart otherwise \<Longrightarrow> sat no_restart (on_ssh_error retry otherwise)"
  unfolding on_ssh_error_def by (intro no_restart_intros) simp_all

lemma no_restart_test_T12: "sat no_restart test_T12"
  unfolding test_T12_def if_selected_def selected_def
  by (intro no_restart_intros no_restart_on_ssh_error)

lemma no_restart_ssh_tests_body: "sat no_restart ssh_tests_body"
  unfolding ssh_tests_body_def check_usb_devices_def test_T09_def test_T10_def test_T11_def
    test_T13_def test_T14_def if_selected_def selected_def
  by (intro no_restart_intros no_restart_on_ssh_error no_restart_test_T12)

lemma no_restart_perform_ssh_tests: "sat no_restart perform_ssh_tests"
  unfolding perform_ssh_tests_def
  by (intro no_restart_intros no_restart_mark_ssh_failed no_restart_ssh_tests_body)

lemma elapsed_eq:
  "andthen (elapsed t) (\<lambda>d. return (x, d)) s =
     (Inr (x, py_int (clock s (ticks s) - t)), s\<lparr>ticks := Suc (ticks s)\<rparr>)"
  by (simp add: elapsed_def andthen_def time_time_def return_def)

lemma get_yes_no_input_eq:
  "get_yes_no_input p a s =
     get_yes_no_loop p a (clock s (ticks s)) (s\<lparr>ticks := Suc (ticks s)\<rparr>)"
  by (simp add: get_yes_no_input_def andthen_def time_time_def)

lemma get_yes_no_loop_no_check:
  "fst (get_yes_no_loop p False t s) =
     (case find is_answer (stdin s) of
        None \<Rightarrow> Inl (Raised ''EOF when reading a line'')
      | Some l \<Rightarrow>
          Inr (Some (lower (strip l) \<in> set [''y'', ''yes'']), py_int (clock s (ticks s) - t)))"
proof (induction "stdin s" arbitrary: s)
  case Nil
  then have "stdin s = []" by simp
  then show ?case by (simp add: get_yes_no_loop_Nil)
next
  case (Cons l ls)
  let ?s1 = "s\<lparr>stdin := ls, prompts := prompts s @ [p @ '' (y/n): ''],
        dialogue := dialogue s @ [(p @ '' (y/n): '', Some l)]\<rparr>"
  have st: "stdin s = l # ls" using Cons.hyps(2) by simp
  have ih: "fst (get_yes_no_loop p False t ?s1) =
     (case find is_answer ls of
        None \<Rightarrow> Inl (Raised ''EOF when reading a line'')
      | Some l \<Rightarrow>
          Inr (Some (lower (strip l) \<in> set [''y'', ''yes'']), py_int (clock s (ticks s) - t)))"
    using Cons.hyps(1) [of ?s1] by (simp cong: option.case_cong)
  show ?case
    unfolding get_yes_no_loop_Cons [OF st] Let_def st
    using ih by (auto simp: elapsed_eq is_answer_def)
qed

lemma py_int_nonneg: "0 \<le> x \<Longrightarrow> 0 \<le> py_int x"
  by (simp add: py_int_def)

text \<open>
  C10 (amended). Called with \<open>allow_continue_check = False\<close>, \<open>get_yes_no_input\<close> reads
  lines up to the first one that is an answer: it returns \<open>True\<close> when that line is
  \<open>y\<close> or \<open>yes\<close> and \<open>False\<close> when it is \<open>n\<close> or \<open>no\<close> (after \<open>strip\<close> and \<open>lower\<close>), never
  the restart signal \<open>None\<close>; without an answer the input ends and \<open>input()\<close> raises
  EOFError. The elapsed time it returns is \<open>int(t1 - t0)\<close> for the two readings of the
  clock, which is not negative when the clock did not go back between them. So the RGB LED
  test T12, and \<open>perform_ssh_tests\<close> as a whole, never execute the \<open>continue\<close> that
  restarts the session and never set \<open>restart_test\<close>.
\<close>

theorem prompt_without_continue_check:
  "(case find is_answer (stdin s) of
      None \<Rightarrow>
        fst (get_yes_no_input prompt False s) = Inl (Raised ''EOF when reading a line'')
    | Some l \<Rightarrow>
        (lower (strip l) \<in> set [''y'', ''yes''] \<longrightarrow>
           fst (get_yes_no_input prompt False s) =
             Inr (Some True, py_int (clock s (Suc (ticks s)) - clock s (ticks s)))) \<and>
        (lower (strip l) \<in> set [''n'', ''no''] \<longrightarrow>
           fst (get_yes_no_input prompt False s) =
             Inr (Some False, py_int (clock s (Suc (ticks s)) - clock s (ticks s)))) \<and>
        (lower (strip l) \<in> set [''y'', ''yes''] \<or> lower (strip l) \<in> set [''n'', ''no''])) \<and>
   (case fst (get_yes_no_input prompt False s) of
      Inl a \<Rightarrow> a = Raised ''EOF when reading a line''
    | Inr (r, d) \<Rightarrow> r \<noteq> None) \<and>
   (clock s (ticks s) \<le> clock s (Suc (ticks s)) \<longrightarrow>
      0 \<le> py_int (clock s (Suc (ticks s)) - clock s (ticks s))) \<and>
   fst (test_T12 s) \<noteq> Inl Continue \<and>
   fst (perform_ssh_tests s) \<noteq> Inl Continue \<and>
   restart_test (snd (perform_ssh_tests s)) = restart_test s"
proof -
  let ?s1 = "s\<lparr>ticks := Suc (ticks s)\<rparr>"
  let ?d = "py_int (clock s (Suc (ticks s)) - clock s (ticks s))"
  have g: "fst (get_yes_no_input prompt False s) =
     (case find is_answer (stdin s) of
        None \<Rightarrow> Inl (Raised ''EOF when reading a line'')
      | Some l \<Rightarrow> Inr (Some (lower (strip l) \<in> set [''y'', ''yes'']), ?d))"
    using get_yes_no_loop_no_check [of prompt "clock s (ticks s)" ?s1]
    by (simp add: get_yes_no_input_eq cong: option.case_cong)
  have ans: "is_answer l" if "find is_answer (stdin s) = Some l" for l
    using that by (auto simp: find_Some_iff)
  have a: "case find is_answer (stdin s) of
      None \<Rightarrow>
        fst (get_yes_no_input prompt False s) = Inl (Raised ''EOF when reading a line'')
    | Some l \<Rightarrow>
        (lower (strip l) \<in> set [''y'', ''yes''] \<longrightarrow>
           fst (get_yes_no_input prompt False s) = Inr (Some True, ?d)) \<and>
        (lower (strip l) \<in> set [''n'', ''no''] \<longrightarrow>
           fst (get_yes_no_input prompt False s) = Inr (Some False, ?d)) \<and>
        (lower (strip l) \<in> set [''y'', ''yes''] \<or> lower (strip l) \<in> set [''n'', ''no''])"
  proof (cases "find is_answer (stdin s)")
    case None
    then show ?thesis by (simp add: g)
  next
    case (Some l)
    from ans [OF Some] show ?thesis
      unfolding g Some by (auto simp: is_answer_def)
  qed
  have n: "case fst (get_yes_no_input prompt False s) of
      Inl a \<Rightarrow> a = Raised ''EOF when reading a line''
    | Inr (r, d) \<Rightarrow> r \<noteq> None"
    unfolding g by (simp split: option.splits)
  have d: "clock s (ticks s) \<le> clock s (Suc (ticks s)) \<longrightarrow> 0 \<le> ?d"
    by (simp add: py_int_nonneg)
  have b: "fst (test_T12 s) \<noteq> Inl Continue"
    using satD [OF no_restart_test_T12, of s]
    by (cases "fst (test_T12 s)") (auto simp: no_restart_def)
  have c: "fst (perform_ssh_tests s) \<noteq> Inl Continue \<and>
           restart_test (snd (perform_ssh_tests s)) = restart_test s"
    using satD [OF no_restart_perform_ssh_tests, of s]
    by (cases "fst (perform_ssh_tests s)") (auto simp: no_restart_def)
  from a n d b c show ?thesis by blast
qed

theorem prompt_without_continue_check_witness:
  "lower (strip ''No '') \<in> set [''n'', ''no''] \<and>
   lower (strip '' YES'') \<in> set [''y'', ''yes''] \<and>
   clock (fresh_state {T12} [''maybe'', ''No ''] ssh_down fw_all_ok)
      (ticks (fresh_state {T12} [''maybe'', ''No ''] ssh_down fw_all_ok))
     \<le> clock (fresh_state {T12} [''maybe'', ''No ''] ssh_down fw_all_ok)
          (Suc (ticks (fresh_state {T12} [''maybe'', ''No ''] ssh_down fw_all_ok))) \<and>
   fst (get_yes_no_input ''Did you see the RGB LED cycle through different colors?'' False
          (fresh_state {T12} [''maybe'', ''No ''] ssh_down fw_all_ok)) = Inr (Some False, 1) \<and>
   fst (get_yes_no_input ''Did you see the RGB LED cycle through different colors?'' False
          (fresh_state {T12} ['' YES''] ssh_down fw_all_ok)) = Inr (Some True, 1) \<and>
   fst (perform_ssh_tests (fresh_state {T12} [''maybe'', ''No ''] ssh_down fw_all_ok))
     \<noteq> Inl Continue"
proof -
  let ?p = "''Did you see the RGB LED cycle through different colors?''"
  let ?s = "fresh_state {T12} [''maybe'', ''No ''] ssh_down fw_all_ok"
  let ?t = "fresh_state {T12} ['' YES''] ssh_down fw_all_ok"
  have n': "lower (strip ''No '') = ''no''"
    and y': "lower (strip '' YES'') = ''yes''"
    by (simp_all add: str_defs)
  have n: "lower (strip ''No '') \<in> set [''n'', ''no'']"
    and y: "lower (strip '' YES'') \<in> set [''y'', ''yes'']"
    by (simp_all add: n' y')
  have fs: "find is_answer (stdin ?s) = Some ''No ''"
    and ft: "find is_answer (stdin ?t) = Some '' YES''"
    by (simp_all add: fresh_state_def is_answer_def str_defs)
  have cs: "clock ?s (ticks ?s) \<le> clock ?s (Suc (ticks ?s))"
    by (simp add: fresh_state_def)
  have ds: "py_int (clock ?s (Suc (ticks ?s)) - clock ?s (ticks ?s)) = 1"
    and dt: "py_int (clock ?t (Suc (ticks ?t)) - clock ?t (ticks ?t)) = 1"
    by (simp_all add: fresh_state_def py_int_def)
  have a: "fst (get_yes_no_input ?p False ?s) = Inr (Some False, 1)"
    using prompt_without_continue_check [where s = ?s and prompt = ?p]
    by (simp add: fs ds n')
  have b: "fst (get_yes_no_input ?p False ?t) = Inr (Some True, 1)"
    using prompt_without_continue_check [where s = ?t and prompt = ?p]
    by (simp add: ft dt y')
  have c: "fst (perform_ssh_tests ?s) \<noteq> Inl Continue"
    using prompt_without_continue_check [where s = ?s and prompt = ?p] by blast
  from n y cs a b c show ?thesis by blast
qed

text \<open>
  C10 does not hold when the clock is set back while the operator is asked: the readings
  are 100 and 98, and the elapsed time returned with the answer is -2.
\<close>

theorem prompt_duration_counterexample:
  "fst (get_yes_no_input ''Did you see the RGB LED cycle through different colors?'' False
          ((fresh_state {T12} [''y''] ssh_down fw_all_ok)\<lparr>clock := clock_set_back\<rparr>)) =
     Inr (Some True, - 2)"
  by (simp add: fresh_state_def get_yes_no_input_eq get_yes_no_loop_Cons elapsed_eq
        str_defs py_int_def clock_set_back_def)

section \<open>The entries of the tests that are not selected\<close>

lemma test_ids_UNIV: "set (map fst TEST_IDS) = UNIV"
proof -
  have "t \<in> set (map fst TEST_IDS)" for t
    by (cases t) (simp_all add: TEST_IDS_def)
  then show ?thesis by blast
qed

lemma closed_preserves [sat_intros]: "closed (preserves I)"
  by (auto simp: closed_def preserves_def)

lemma keeps_imp_skipped:
  assumes "sat keeps_ledger m"
  shows "sat (preserves (skipped_fixed sel ex0)) m"
  unfolding sat_def
proof
  fix s
  from satD [OF assms, of s]
  show "preserves (skipped_fixed sel ex0) s (outcome (fst (m s))) (snd (m s))"
    by (simp add: keeps_ledger_def preserves_def skipped_fixed_def)
qed

lemmas io_skipped = io_keeps [THEN keeps_imp_skipped]

lemma skipped_if_selected:
  assumes "tid \<in> sel \<Longrightarrow> sat (preserves (skipped_fixed sel ex0)) m"
  shows "sat (preserves (skipped_fixed sel ex0)) (if_selected tid m)"
  unfolding sat_def
proof
  fix s
  show "preserves (skipped_fixed sel ex0) s (outcome (fst (if_selected tid m s)))
          (snd (if_selected tid m s))"
  proof (cases "tid \<in> tests_to_run (test_result s)")
    case False
    then show ?thesis
      by (simp add: if_selected_def selected_def get_def andthen_def when_do_def return_def
            preserves_def)
  next
    case True
    then have e: "if_selected tid m s = m s"
      by (simp add: if_selected_def selected_def get_def andthen_def when_do_def)
    show ?thesis
    proof (cases "tid \<in> sel")
      case True
      from satD [OF assms [OF True], of s] show ?thesis by (simp add: e)
    next
      case False
      with \<open>tid \<in> tests_to_run (test_result s)\<close> show ?thesis
        by (auto simp: preserves_def skipped_fixed_def)
    qed
  qed
qed

lemma skipped_set_test_result:
  "tid \<in> sel \<Longrightarrow> sat (preserves (skipped_fixed sel ex0)) (set_test_result tid r d n)"
  using map_of_TEST_IDS [of tid]
  by (auto simp: sat_def set_test_result_def preserves_def skipped_fixed_def Let_def
           split: option.splits)

lemma skipped_add_note: "sat (preserves (skipped_fixed sel ex0)) (add_note t)"
  by (simp add: sat_def add_note_def modify_def preserves_def skipped_fixed_def)

lemma skipped_modify_ssh: "sat (preserves (skipped_fixed sel ex0)) (modify (\<lambda>s. s\<lparr>v_ssh := x\<rparr>))"
  by (simp add: sat_def modify_def preserves_def skipped_fixed_def)

lemma skipped_modify_restart:
  "sat (preserves (skipped_fixed sel ex0)) (modify (\<lambda>s. s\<lparr>restart_test := x\<rparr>))"
  by (simp add: sat_def modify_def preserves_def skipped_fixed_def)

lemma skipped_modify_notes:
  "sat (preserves (skipped_fixed sel ex0))
     (modify (\<lambda>s. s\<lparr>test_result := (test_result s)\<lparr>notes_text := x\<rparr>\<rparr>))"
  by (simp add: sat_def modify_def preserves_def skipped_fixed_def)

lemma test_id_in_TEST_IDS: "\<exists>name. (t, name) \<in> set TEST_IDS"
  by (cases t) (simp_all add: TEST_IDS_def)

lemma skipped_row_of:
  assumes "\<forall>t. t \<notin> sel \<longrightarrow> test_results tr t = Some SKIPPED"
  shows "skipped_row sel (row_of tr)"
  unfolding skipped_row_def
proof (intro allI impI)
  fix t assume "t \<notin> sel"
  with assms have r: "test_results tr t = Some SKIPPED" by simp
  obtain name where n: "(t, name) \<in> set TEST_IDS" using test_id_in_TEST_IDS by blast
  have a: "(t, ''SKIPPED'') \<in> set (row_results (row_of tr))"
    using n r by (force simp: row_of_def result_cell_def)
  have b: "(t, 0) \<in> set (row_durations (row_of tr))"
    using n r by (force simp: row_of_def duration_cell_def)
  from a b show "(t, ''SKIPPED'') \<in> set (row_results (row_of tr)) \<and>
                 (t, 0) \<in> set (row_durations (row_of tr))" by simp
qed

lemma skipped_save_to_excel: "sat (preserves (skipped_fixed sel ex0)) save_to_excel"
  unfolding sat_def
proof
  fix s
  show "preserves (skipped_fixed sel ex0) s (outcome (fst (save_to_excel s))) (snd (save_to_excel s))"
    unfolding preserves_def
  proof
    assume i: "skipped_fixed sel ex0 s"
    let ?tr = "(test_result s)\<lparr>overall_pass := compute_overall_pass (test_result s)\<rparr>"
    have "skipped_row sel (row_of ?tr)"
      using i by (intro skipped_row_of) (simp add: skipped_fixed_def)
    with i show "skipped_fixed sel ex0 (snd (save_to_excel s))"
      by (auto simp: save_to_excel_def skipped_fixed_def Let_def)
  qed
qed

lemmas skipped_intros = sat_intros io_skipped skipped_if_selected skipped_set_test_result
  skipped_add_note skipped_modify_ssh skipped_modify_restart skipped_modify_notes
  skipped_save_to_excel

lemma skipped_fail_T01:
  "T01 \<in> sel \<Longrightarrow> sat (preserves (skipped_fixed sel ex0)) (fail_T01 t d)"
  unfolding fail_T01_def by (intro skipped_intros)

lemma skipped_upload_python_files:
  assumes "T01 \<in> sel"
  shows "sat (preserves (skipped_fixed sel ex0)) (upload_python_files fs t)"
proof -
  have "preserves (skipped_fixed sel ex0) s (outcome (fst (upload_python_files fs t s)))
          (snd (upload_python_files fs t s))" for s
  proof (induction fs)
    case Nil
    show ?case by (simp add: preserves_def)
  next
    case (Cons f fs)
    from Cons satD [OF skipped_fail_T01 [OF assms]]
    show ?case by (simp split: ampy_outcome.splits)
  qed
  then show ?thesis by (simp add: sat_def)
qed

lemma skipped_upload_firmware_wipe:
  "T01 \<in> sel \<Longrightarrow> sat (preserves (skipped_fixed sel ex0)) upload_firmware_wipe"
  unfolding upload_firmware_wipe_def
  by (intro skipped_intros skipped_fail_T01 skipped_upload_python_files)

lemma skipped_raise: "sat (preserves I) (abrupt a)"
  by (simp add: sat_def abrupt_def preserves_def)

lemma skipped_mark_ssh_failed: "sat (preserves (skipped_fixed sel ex0)) (mark_ssh_failed ts)"
  by (induction ts) (auto intro!: skipped_intros)

lemma skipped_on_ssh_error:
  "sat (preserves (skipped_fixed sel ex0)) retry \<Longrightarrow>
   sat (preserves (skipped_fixed sel ex0)) otherwise \<Longrightarrow>
   sat (preserves (skipped_fixed sel ex0)) (on_ssh_error retry otherwise)"
  unfolding on_ssh_error_def by (intro skipped_intros) simp_all

lemma skipped_perform_ssh_tests: "sat (preserves (skipped_fixed sel ex0)) perform_ssh_tests"
  unfolding perform_ssh_tests_def ssh_tests_body_def check_usb_devices_def test_T09_def
    test_T10_def test_T11_def test_T12_def test_T13_def test_T14_def
  by (intro skipped_intros skipped_on_ssh_error skipped_mark_ssh_failed)

lemma skipped_operator_check:
  "tid \<in> sel \<Longrightarrow> sat (preserves (skipped_fixed sel ex0)) (operator_check tid p)"
  unfolding operator_check_def by (intro skipped_intros skipped_raise)

lemma skipped_visual_check: "sat (preserves (skipped_fixed sel ex0)) (visual_check tid p)"
  unfolding visual_check_def by (intro skipped_intros skipped_operator_check)

lemma skipped_selected:
  assumes "\<And>b. (b \<Longrightarrow> tid \<in> sel) \<Longrightarrow> sat (preserves (skipped_fixed sel ex0)) (f b)"
  shows "sat (preserves (skipped_fixed sel ex0)) (andthen (selected tid) f)"
  unfolding sat_def
proof
  fix s :: state
  let ?b = "tid \<in> tests_to_run (test_result s)"
  have e: "andthen (selected tid) f s = f ?b s"
    by (simp add: selected_def get_def andthen_def)
  show "preserves (skipped_fixed sel ex0) s (outcome (fst (andthen (selected tid) f s)))
          (snd (andthen (selected tid) f s))"
  proof (cases "skipped_fixed sel ex0 s")
    case False
    then show ?thesis by (simp add: preserves_def)
  next
    case True
    then have "?b \<Longrightarrow> tid \<in> sel" by (simp add: skipped_fixed_def)
    from satD [OF assms [OF this], where s = s] show ?thesis by (simp add: e)
  qed
qed

lemma skipped_ui_tests: "sat (preserves (skipped_fixed sel ex0)) ui_tests"
  unfolding ui_tests_def
  by (intro skipped_selected skipped_intros skipped_visual_check skipped_operator_check) simp_all

lemma skipped_run_tests: "sat (preserves (skipped_fixed sel ex0)) run_tests"
  unfolding run_tests_def local_tests_def firmware_step_def hardware_assembly_def visual_checks_def ssh_step_def
  by (intro skipped_intros skipped_visual_check skipped_upload_firmware_wipe
        skipped_perform_ssh_tests skipped_raise skipped_ui_tests)

lemma foldl_init_entry:
  "fst (foldl (init_entry sel) acc ts) t =
     (if t \<in> set ts then Some (if t \<in> sel then PyNone else SKIPPED) else fst acc t) \<and>
   snd (foldl (init_entry sel) acc ts) t =
     (if t \<in> set ts then Some (if t \<in> sel then None else Some 0) else snd acc t)"
proof (induction ts arbitrary: acc)
  case Nil
  show ?case by simp
next
  case (Cons x xs)
  let ?acc = "init_entry sel acc x"
  from Cons.IH [of ?acc]
  have a: "fst (foldl (init_entry sel) ?acc xs) t =
             (if t \<in> set xs then Some (if t \<in> sel then PyNone else SKIPPED) else fst ?acc t)"
    and b: "snd (foldl (init_entry sel) ?acc xs) t =
             (if t \<in> set xs then Some (if t \<in> sel then None else Some 0) else snd ?acc t)"
    by simp_all
  have c: "fst ?acc t = (if t = x then Some (if t \<in> sel then PyNone else SKIPPED) else fst acc t)"
    and d: "snd ?acc t = (if t = x then Some (if t \<in> sel then None else Some 0) else snd acc t)"
    by (simp_all add: init_entry_def)
  show ?case
    unfolding foldl_Cons a b c d by simp
qed

lemma init_results:
  "test_results (TestResult_init dev sel ver man) t = Some (if t \<in> sel then PyNone else SKIPPED)"
  using foldl_init_entry [of sel "(Map.empty, Map.empty)" "map fst TEST_IDS" t] test_ids_UNIV
  by (simp add: TestResult_init_def Let_def)

lemma init_durations:
  "test_durations (TestResult_init dev sel ver man) t = Some (if t \<in> sel then None else Some 0)"
  using foldl_init_entry [of sel "(Map.empty, Map.empty)" "map fst TEST_IDS" t] test_ids_UNIV
  by (simp add: TestResult_init_def Let_def)

lemma init_fields:
  "tests_to_run (TestResult_init dev sel ver man) = sel"
  "log_file (TestResult_init dev sel ver man) = []"
  "notes_text (TestResult_init dev sel ver man) = []"
  "overall_pass (TestResult_init dev sel ver man) = False"
  "device_id (TestResult_init dev sel ver man) = dev"
  by (simp_all add: TestResult_init_def Let_def)

lemma skipped_modify_trace:
  "sat (preserves (skipped_fixed sel ex0)) (modify (\<lambda>s. s\<lparr>ssh_trace := f s\<rparr>))"
  by (simp add: sat_def modify_def preserves_def skipped_fixed_def)

lemma skipped_main_try_body: "sat (preserves (skipped_fixed sel ex0)) main_try_body"
  unfolding main_try_body_def run_and_save_def wrap_up_def shutdown_cm5_def
  by (intro skipped_intros skipped_run_tests skipped_raise skipped_modify_trace)

lemma skipped_main_except: "sat (preserves (skipped_fixed sel ex0)) (main_except e)"
  unfolding main_except_def by (intro skipped_intros)

lemma skipped_fixed_main_pass: "skipped_fixed sel (excel s) (snd (main_pass sel dev s))"
proof -
  let ?s0 = "s\<lparr>test_result := TestResult_init dev sel None None, restart_test := False\<rparr>"
  have e: "main_pass sel dev s = try_except main_try_body main_except ?s0"
    by (simp add: main_pass_def andthen_def modify_def)
  have i: "skipped_fixed sel (excel s) ?s0"
    by (simp add: skipped_fixed_def init_results init_durations init_fields)
  have "sat (preserves (skipped_fixed sel (excel s))) (try_except main_try_body main_except)"
    by (intro sat_intros skipped_main_try_body skipped_main_except)
  from satD [OF this, of ?s0] i show ?thesis
    unfolding e by (simp add: preserves_def)
qed

text \<open>
  C4. A test that is not in the selection is \<open>'SKIPPED'\<close> with duration 0 in the new
  ledger, and still is after a whole pass of the main loop, whatever the operator, the
  programmer and the network do: \<open>set_test_result\<close> was never called for it (the log has
  no line for it), and every row that the pass has saved shows it as SKIPPED with
  duration 0.
\<close>

theorem skipped_entries_never_change:
  assumes "t \<notin> sel"
  shows "test_results (TestResult_init dev sel ver man) t = Some SKIPPED \<and>
         test_durations (TestResult_init dev sel ver man) t = Some (Some 0) \<and>
         test_results (test_result (snd (main_pass sel dev s))) t = Some SKIPPED \<and>
         test_durations (test_result (snd (main_pass sel dev s))) t = Some (Some 0) \<and>
         t \<notin> le_test ` set (log_file (test_result (snd (main_pass sel dev s)))) \<and>
         (\<forall>r \<in> set (drop (length (excel s)) (excel (snd (main_pass sel dev s)))).
            (t, ''SKIPPED'') \<in> set (row_results r) \<and> (t, 0) \<in> set (row_durations r))"
proof -
  from skipped_fixed_main_pass [of sel s dev]
  obtain rows where
    a: "\<forall>t. t \<notin> sel \<longrightarrow>
           test_results (test_result (snd (main_pass sel dev s))) t = Some SKIPPED \<and>
           test_durations (test_result (snd (main_pass sel dev s))) t = Some (Some 0) \<and>
           t \<notin> le_test ` set (log_file (test_result (snd (main_pass sel dev s))))"
    and b: "excel (snd (main_pass sel dev s)) = excel s @ rows"
    and c: "list_all (skipped_row sel) rows"
    unfolding skipped_fixed_def by blast
  from b have d: "drop (length (excel s)) (excel (snd (main_pass sel dev s))) = rows" by simp
  from c assms have "\<forall>r \<in> set rows.
      (t, ''SKIPPED'') \<in> set (row_results r) \<and> (t, 0) \<in> set (row_durations r)"
    by (simp add: list_all_iff skipped_row_def)
  with a assms d show ?thesis by (simp add: init_results init_durations)
qed

theorem skipped_entries_never_change_witness:
  "T02 \<notin> {T12, T13} \<and>
   test_results (test_result (snd (main_pass {T12, T13} 7
     (fresh_state {} [''y'', ''n'', ''n''] ssh_down fw_all_ok)))) T02 = Some SKIPPED \<and>
   test_durations (test_result (snd (main_pass {T12, T13} 7
     (fresh_state {} [''y'', ''n'', ''n''] ssh_down fw_all_ok)))) T02 = Some (Some 0)"
  using skipped_entries_never_change
    [of T02 "{T12, T13}" 7 None None "fresh_state {} [''y'', ''n'', ''n''] ssh_down fw_all_ok"]
  by simp

section \<open>Running the model on an example\<close>

lemmas monad_defs = return_def abrupt_def andthen_def try_except_def modify_def get_def
  when_do_def selected_def if_selected_def

lemmas io_defs = input_def time_time_def elapsed_def wait_for_enter_def get_yes_no_input_eq
  get_yes_no_loop_Nil get_yes_no_loop_Cons str_defs
  py_int_def transport_def exec_command_def ssh_execute_command_def invoke_shell_def
  ssh_execute_interactive_def reconnect_ssh_def close_ssh_def run_command_def
  run_interactive_def on_ssh_error_def

lemmas ledger_defs = set_test_result_def status_text_def add_note_def save_to_excel_def
  compute_overall_pass_def values_of_def List.map_filter_simps TEST_IDS_def
  init_results init_durations init_fields

lemmas session_defs = fail_T01_def upload_firmware_wipe_def PYTHON_FILES_def
  ssh_test_ids_def check_usb_devices_def test_T09_def test_T10_def test_T11_def test_T12_def
  test_T13_def test_T14_def ssh_tests_body_def perform_ssh_tests_def operator_check_def
  visual_check_def firmware_step_def hardware_assembly_def visual_checks_def ui_tests_def
  ssh_step_def run_tests_def local_tests_def run_and_save_def py_of_answer_def rgb_led_check_command_def
  RGB_LED_TEST_PATH_def RGB_LED_NUM_ENTERS_def

lemmas eval_defs = monad_defs io_defs ledger_defs session_defs fresh_state_def Let_def

lemma upt_5: "[0..<5] = [0, 1, 2, 3, 4]"
  by (simp add: upt_rec)

lemma upt_3: "[0..<3] = [0, 1, 2]"
  by (simp add: upt_rec)

section \<open>The overall result\<close>

lemma set_values_of: "set (values_of tr) = ran (test_results tr)"
proof -
  have "set (values_of tr) = {v. \<exists>t \<in> set (map fst TEST_IDS). test_results tr t = Some v}"
    unfolding values_of_def map_filter_def by force
  then show ?thesis
    unfolding test_ids_UNIV ran_def by simp
qed

lemma compute_overall_pass_iff:
  "compute_overall_pass tr \<longleftrightarrow>
     (\<exists>v \<in> ran (test_results tr). v \<noteq> PyNone) \<and>
     (\<forall>v \<in> ran (test_results tr). v \<noteq> PyNone \<longrightarrow> truthy v)"
proof -
  let ?vs = "filter (\<lambda>v. v \<noteq> PyNone) (values_of tr)"
  have s: "set ?vs = {v \<in> ran (test_results tr). v \<noteq> PyNone}"
    by (auto simp: set_values_of)
  have "?vs \<noteq> [] \<longleftrightarrow> set ?vs \<noteq> {}" by (simp only: set_empty)
  then have ne: "?vs \<noteq> [] \<longleftrightarrow> (\<exists>v \<in> ran (test_results tr). v \<noteq> PyNone)"
    unfolding s by blast
  have al: "list_all truthy ?vs \<longleftrightarrow> (\<forall>v \<in> ran (test_results tr). v \<noteq> PyNone \<longrightarrow> truthy v)"
    unfolding list_all_iff s by blast
  show ?thesis
    unfolding compute_overall_pass_def Let_def using ne al by simp
qed

lemma save_to_excel_overall:
  "overall_pass (test_result (snd (save_to_excel s))) = compute_overall_pass (test_result s)"
  by (simp add: save_to_excel_def Let_def)

text \<open>
  C1 (amended). Let every entry of the ledger be unset, passed, failed or skipped. If at
  least one test was executed (passed or failed), the \<open>overall_pass\<close> that \<open>save_to_excel\<close>
  computes is true exactly when every entry that is neither skipped nor unset is a pass:
  unset entries are left out like skipped ones. If every entry is unset, \<open>overall_pass\<close>
  is false.
\<close>

theorem overall_pass_executed_tests:
  assumes wf: "\<forall>t. test_results (test_result s) t \<in>
                 {Some PyNone, Some (PyBool True), Some (PyBool False), Some SKIPPED}"
  shows "((\<exists>t b. test_results (test_result s) t = Some (PyBool b)) \<longrightarrow>
            (overall_pass (test_result (snd (save_to_excel s))) \<longleftrightarrow>
               (\<forall>t. test_results (test_result s) t \<noteq> Some SKIPPED \<and>
                    test_results (test_result s) t \<noteq> Some PyNone \<longrightarrow>
                    test_results (test_result s) t = Some (PyBool True)))) \<and>
         ((\<forall>t. test_results (test_result s) t = Some PyNone) \<longrightarrow>
            \<not> overall_pass (test_result (snd (save_to_excel s))))"
proof -
  let ?m = "test_results (test_result s)"
  have ran: "v \<in> ran ?m \<longleftrightarrow> (\<exists>t. ?m t = Some v)" for v
    by (auto simp: ran_def)
  have vals: "v = PyNone \<or> v = PyBool True \<or> v = PyBool False \<or> v = SKIPPED"
    if "?m t = Some v" for t v
    using wf that by (metis insert_iff option.inject singletonD)
  have a: "(\<forall>v \<in> ran ?m. v \<noteq> PyNone \<longrightarrow> truthy v) \<longleftrightarrow>
           (\<forall>t. ?m t \<noteq> Some SKIPPED \<and> ?m t \<noteq> Some PyNone \<longrightarrow> ?m t = Some (PyBool True))"
  proof
    assume h: "\<forall>v \<in> ran ?m. v \<noteq> PyNone \<longrightarrow> truthy v"
    show "\<forall>t. ?m t \<noteq> Some SKIPPED \<and> ?m t \<noteq> Some PyNone \<longrightarrow> ?m t = Some (PyBool True)"
    proof (intro allI impI)
      fix t assume n: "?m t \<noteq> Some SKIPPED \<and> ?m t \<noteq> Some PyNone"
      from wf have "?m t \<in> {Some PyNone, Some (PyBool True), Some (PyBool False), Some SKIPPED}"
        by blast
      with n have "?m t = Some (PyBool True) \<or> ?m t = Some (PyBool False)" by auto
      moreover have "?m t \<noteq> Some (PyBool False)"
      proof
        assume f: "?m t = Some (PyBool False)"
        then have "PyBool False \<in> ran ?m" by (auto simp: ran_def)
        with h show False by auto
      qed
      ultimately show "?m t = Some (PyBool True)" by blast
    qed
  next
    assume h: "\<forall>t. ?m t \<noteq> Some SKIPPED \<and> ?m t \<noteq> Some PyNone \<longrightarrow> ?m t = Some (PyBool True)"
    show "\<forall>v \<in> ran ?m. v \<noteq> PyNone \<longrightarrow> truthy v"
    proof (intro ballI impI)
      fix v assume "v \<in> ran ?m" and nn: "v \<noteq> PyNone"
      then obtain t where t: "?m t = Some v" by (auto simp: ran_def)
      show "truthy v"
      proof (cases "v = SKIPPED")
        case True then show ?thesis by simp
      next
        case False
        from t nn False have "?m t \<noteq> Some SKIPPED \<and> ?m t \<noteq> Some PyNone" by simp
        with h have "?m t = Some (PyBool True)" by blast
        with t show ?thesis by auto
      qed
    qed
  qed
  have b: "(\<exists>v \<in> ran ?m. v \<noteq> PyNone)" if "\<exists>t b. ?m t = Some (PyBool b)"
    using that by (auto simp: ran_def)
  have c: "\<not> (\<exists>v \<in> ran ?m. v \<noteq> PyNone)" if "\<forall>t. ?m t = Some PyNone"
    using that by (auto simp: ran_def)
  show ?thesis
    unfolding save_to_excel_overall compute_overall_pass_iff using a b c by blast
qed

theorem overall_pass_executed_tests_witness:
  "(\<forall>t. test_results (test_result (snd (set_test_result T02 (PyBool True) [] (Some 3)
            (fresh_state {T02, T03} [] ssh_down fw_all_ok)))) t \<in>
        {Some PyNone, Some (PyBool True), Some (PyBool False), Some SKIPPED}) \<and>
   test_results (test_result (snd (set_test_result T02 (PyBool True) [] (Some 3)
            (fresh_state {T02, T03} [] ssh_down fw_all_ok)))) T02 = Some (PyBool True) \<and>
   overall_pass (test_result (snd (save_to_excel (snd (set_test_result T02 (PyBool True) []
            (Some 3) (fresh_state {T02, T03} [] ssh_down fw_all_ok))))))"
proof -
  let ?s = "snd (set_test_result T02 (PyBool True) [] (Some 3)
              (fresh_state {T02, T03} [] ssh_down fw_all_ok))"
  have r: "test_results (test_result ?s) t =
             (if t = T02 then Some (PyBool True)
              else if t = T03 then Some PyNone else Some SKIPPED)" for t
    by (simp add: set_test_result_def fresh_state_def init_results TEST_IDS_def Let_def)
  have wf: "\<forall>t. test_results (test_result ?s) t \<in>
              {Some PyNone, Some (PyBool True), Some (PyBool False), Some SKIPPED}"
    by (simp add: r)
  have ex: "\<exists>t b. test_results (test_result ?s) t = Some (PyBool b)"
    using r [of T02] by auto
  have al: "\<forall>t. test_results (test_result ?s) t \<noteq> Some SKIPPED \<and>
                test_results (test_result ?s) t \<noteq> Some PyNone \<longrightarrow>
                test_results (test_result ?s) t = Some (PyBool True)"
    by (simp add: r)
  from overall_pass_executed_tests [OF wf] ex al
  have "overall_pass (test_result (snd (save_to_excel ?s)))" by blast
  with wf r [of T02] show ?thesis by simp
qed

text \<open>
  C1 does not hold as it is stated. With an empty selection all thirteen entries are
  \<open>'SKIPPED'\<close>, a string that counts as true, and \<open>overall_pass\<close> is true. And in a session
  with T12 and T13 in which T12 passes and \<open>lsblk\<close> fails twice, T13 stays unset, which is
  neither skipped nor a pass, and \<open>overall_pass\<close> is true.
\<close>

theorem overall_pass_counterexample:
  "tests_to_run (test_result (snd (run_and_save (fresh_state {} [] ssh_down fw_all_ok)))) = {} \<and>
   values_of (test_result (snd (run_and_save (fresh_state {} [] ssh_down fw_all_ok)))) =
     [SKIPPED, SKIPPED, SKIPPED, SKIPPED, SKIPPED, SKIPPED, SKIPPED, SKIPPED, SKIPPED, SKIPPED,
      SKIPPED, SKIPPED, SKIPPED] \<and>
   overall_pass (test_result (snd (run_and_save (fresh_state {} [] ssh_down fw_all_ok)))) \<and>
   fst (run_and_save (fresh_state {T12, T13} [''y''] ssh_lsblk_fails fw_all_ok)) = Inr () \<and>
   test_results (test_result (snd (run_and_save
      (fresh_state {T12, T13} [''y''] ssh_lsblk_fails fw_all_ok)))) T12 = Some (PyBool True) \<and>
   test_results (test_result (snd (run_and_save
      (fresh_state {T12, T13} [''y''] ssh_lsblk_fails fw_all_ok)))) T13 = Some PyNone \<and>
   overall_pass (test_result (snd (run_and_save
      (fresh_state {T12, T13} [''y''] ssh_lsblk_fails fw_all_ok))))"
  by (simp add: eval_defs ssh_lsblk_fails_def upt_5)

section \<open>A failed firmware upload\<close>

lemma set_test_result_eq:
  "set_test_result tid r details (Some d) s =
     (Inr (), s\<lparr>test_result := recorded tid r details d (test_result s)\<rparr>)"
  using map_of_TEST_IDS [of tid]
  by (auto simp: set_test_result_def recorded_def Let_def)



lemma upload_python_files_succeeds:
  "list_all (\<lambda>f. ampy_put (fw s) f = FileMissing \<or> ampy_put (fw s) f = ExitZero) fs \<Longrightarrow>
   upload_python_files fs t s = (Inr True, s)"
  by (induction fs) (auto split: ampy_outcome.splits)


lemma recorded_fields:
  "test_results (recorded tid r details d tr) = (test_results tr)(tid \<mapsto> r)"
  "test_durations (recorded tid r details d tr) = (test_durations tr)(tid \<mapsto> Some d)"
  "tests_to_run (recorded tid r details d tr) = tests_to_run tr"
  "notes_text (recorded tid r details d tr) = notes_text tr"
  "overall_pass (recorded tid r details d tr) = overall_pass tr"
  "device_id (recorded tid r details d tr) = device_id tr"
  "log_file (recorded tid r details d tr) = log_file tr @
          [\<lparr>le_test = tid, le_name = the (map_of TEST_IDS tid), le_status = status_text r,
            le_duration = Some d, le_details = details\<rparr>]"
  by (simp_all add: recorded_def)

lemma failed_entry_fails_overall:
  "test_results tr t = Some (PyBool False) \<Longrightarrow> \<not> compute_overall_pass tr"
  unfolding compute_overall_pass_iff by (auto simp: ran_def)



section \<open>The operator stops the session\<close>

lemma no_is_not_yes:
  "x \<in> set [''n'', ''no''] \<Longrightarrow> x \<notin> set [''y'', ''yes'']"
  by auto

lemma get_yes_no_input_no_stop:
  assumes "stdin s = a # b # rest"
    and "lower (strip a) \<in> set [''n'', ''no'']"
    and "lower (strip b) \<notin> set [''y'', ''yes'']"
  shows "get_yes_no_input p True s =
           (Inr (None, py_int (clock s (Suc (ticks s)) - clock s (ticks s))),
            s\<lparr>ticks := Suc (Suc (ticks s)), stdin := rest,
              prompts := prompts s @ [p @ '' (y/n): '', continue_prompt],
              dialogue := dialogue s @
                [(p @ '' (y/n): '', Some a), (continue_prompt, Some b)]\<rparr>)"
proof -
  let ?s1 = "s\<lparr>ticks := Suc (ticks s)\<rparr>"
  have st: "stdin ?s1 = a # b # rest" using assms(1) by simp
  from assms(2) have ny: "lower (strip a) \<notin> set [''y'', ''yes'']" by (rule no_is_not_yes)
  show ?thesis
    unfolding get_yes_no_input_eq get_yes_no_loop_Cons [OF st]
    using assms(2,3) ny
    by (simp add: Let_def andthen_def input_def elapsed_def time_time_def return_def)
qed

lemma operator_check_stop:
  assumes "stdin s = a # b # rest"
    and "lower (strip a) \<in> set [''n'', ''no'']"
    and "lower (strip b) \<notin> set [''y'', ''yes'']"
  shows "operator_check tid p s =
           (Inl Continue,
            s\<lparr>ticks := Suc (Suc (ticks s)), stdin := rest,
              prompts := prompts s @ [p @ '' (y/n): '', continue_prompt],
              dialogue := dialogue s @
                [(p @ '' (y/n): '', Some a), (continue_prompt, Some b)],
              restart_test := True,
              test_result := (test_result s)\<lparr>overall_pass := compute_overall_pass (test_result s)\<rparr>,
              excel := excel s @
                [row_of ((test_result s)\<lparr>overall_pass := compute_overall_pass (test_result s)\<rparr>)]\<rparr>)"
  by (simp add: operator_check_def andthen_def get_yes_no_input_no_stop [OF assms] modify_def
        save_to_excel_def Let_def abrupt_def)

lemma closed_calm [sat_intros]: "closed calm"
  unfolding closed_def calm_def
proof (intro conjI allI impI)
  fix s show "\<exists>d. dialogue s = dialogue s @ d \<and> \<not> list_ex declined d" by simp
next
  fix s a s1 b s2
  assume h: "(\<exists>d. dialogue s1 = dialogue s @ d \<and> \<not> list_ex declined d) \<and>
       (a = None \<or> (\<exists>e. a = Some (Raised e))) \<and>
       (\<exists>d. dialogue s2 = dialogue s1 @ d \<and> \<not> list_ex declined d)"
  then obtain d1 d2 where "dialogue s1 = dialogue s @ d1" "\<not> list_ex declined d1"
    "dialogue s2 = dialogue s1 @ d2" "\<not> list_ex declined d2" by blast
  then have "dialogue s2 = dialogue s @ (d1 @ d2) \<and> \<not> list_ex declined (d1 @ d2)"
    by (auto simp: list_ex_iff)
  then show "\<exists>d. dialogue s2 = dialogue s @ d \<and> \<not> list_ex declined d" by blast
qed

lemma closed_stop_rel [sat_intros]: "closed stop_rel"
  unfolding closed_def
proof (intro conjI allI impI)
  fix s show "stop_rel s None s" by (simp add: stop_rel_def)
next
  fix s a s1 b s2
  assume h: "stop_rel s a s1 \<and> (a = None \<or> (\<exists>e. a = Some (Raised e))) \<and> stop_rel s1 b s2"
  then have a: "a \<noteq> Some Continue" by auto
  from h a obtain d1 where d1: "dialogue s1 = dialogue s @ d1" "\<not> list_ex declined d1"
    "excel s1 = excel s" "restart_test s1 = restart_test s"
    unfolding stop_rel_def by blast
  from h obtain d2 where d2: "dialogue s2 = dialogue s1 @ d2"
    and c: "(\<not> list_ex declined d2 \<and>
          (b \<noteq> Some Continue \<longrightarrow> excel s2 = excel s1 \<and> restart_test s2 = restart_test s1)) \<or>
         (d2 \<noteq> [] \<and> declined (last d2) \<and> \<not> list_ex declined (butlast d2) \<and>
          b = Some Continue \<and> restart_test s2 \<and>
          excel s2 = excel s1 @ [row_of (test_result s2)] \<and>
          overall_pass (test_result s2) = compute_overall_pass (test_result s2))"
    unfolding stop_rel_def by blast
  have e: "dialogue s2 = dialogue s @ (d1 @ d2)" using d1 d2 by simp
  from c show "stop_rel s b s2"
  proof
    assume "\<not> list_ex declined d2 \<and>
          (b \<noteq> Some Continue \<longrightarrow> excel s2 = excel s1 \<and> restart_test s2 = restart_test s1)"
    with d1 have "\<not> list_ex declined (d1 @ d2) \<and>
          (b \<noteq> Some Continue \<longrightarrow> excel s2 = excel s \<and> restart_test s2 = restart_test s)"
      by (auto simp: list_ex_iff)
    with e show ?thesis unfolding stop_rel_def by blast
  next
    assume c2: "d2 \<noteq> [] \<and> declined (last d2) \<and> \<not> list_ex declined (butlast d2) \<and>
          b = Some Continue \<and> restart_test s2 \<and>
          excel s2 = excel s1 @ [row_of (test_result s2)] \<and>
          overall_pass (test_result s2) = compute_overall_pass (test_result s2)"
    then have "d1 @ d2 \<noteq> [] \<and> declined (last (d1 @ d2)) \<and>
          \<not> list_ex declined (butlast (d1 @ d2)) \<and>
          b = Some Continue \<and> restart_test s2 \<and>
          excel s2 = excel s @ [row_of (test_result s2)] \<and>
          overall_pass (test_result s2) = compute_overall_pass (test_result s2)"
      using d1 by (auto simp: butlast_append list_ex_iff)
    with e show ?thesis unfolding stop_rel_def by blast
  qed
qed

lemma quiet_imp_stop:
  assumes "sat no_restart m" "sat calm m"
  shows "sat stop_rel m"
  unfolding sat_def
proof
  fix s
  from satD [OF assms(1), of s] satD [OF assms(2), of s]
  show "stop_rel s (outcome (fst (m s))) (snd (m s))"
    unfolding no_restart_def calm_def stop_rel_def by blast
qed

lemma calm_same: "(\<And>s. dialogue (snd (m s)) = dialogue s) \<Longrightarrow> sat calm m"
  by (simp add: sat_def calm_def)

lemma calm_input: "p \<noteq> continue_prompt \<Longrightarrow> sat calm (input p)"
  by (simp add: sat_def calm_def input_def declined_def split: list.splits)

lemma calm_time_time: "sat calm time_time"
  by (rule calm_same) (simp add: time_time_def)

lemma calm_transport: "sat calm (transport ev)"
  by (rule calm_same) (simp add: transport_def Let_def split: ssh_outcome.splits)

lemma calm_close_ssh: "sat calm close_ssh"
  by (rule calm_same) (simp add: close_ssh_def split: option.splits)

lemma calm_set_test_result: "sat calm (set_test_result tid r d n)"
  by (rule calm_same) (simp add: set_test_result_def Let_def split: option.splits)

lemma calm_add_note: "sat calm (add_note t)"
  by (rule calm_same) (simp add: add_note_def modify_def)

lemma calm_save_to_excel: "sat calm save_to_excel"
  by (rule calm_same) (simp add: save_to_excel_def Let_def)

lemma calm_abrupt: "sat calm (abrupt a)"
  by (rule calm_same) (simp add: abrupt_def)

lemma calm_modify: "(\<And>s. dialogue (f s) = dialogue s) \<Longrightarrow> sat calm (modify f)"
  by (rule calm_same) (simp add: modify_def)

lemma ready_not_continue: "p @ '' Press Enter when ready: '' \<noteq> continue_prompt"
proof
  assume "p @ '' Press Enter when ready: '' = continue_prompt"
  then have "take 3 (rev (p @ '' Press Enter when ready: '')) = take 3 (rev continue_prompt)"
    by simp
  then show False by (simp add: continue_prompt_def)
qed

lemma calm_wait_for_enter: "sat calm (wait_for_enter p)"
  unfolding wait_for_enter_def
  by (intro sat_intros calm_input ready_not_continue)

lemma calm_elapsed: "sat calm (elapsed t)"
  unfolding elapsed_def by (intro sat_intros calm_time_time)

lemma get_yes_no_loop_dialogue:
  assumes p: "p @ '' (y/n): '' \<noteq> continue_prompt"
  shows "\<exists>d. dialogue (snd (get_yes_no_loop p a t s)) = dialogue s @ d \<and>
           (if \<exists>dur. fst (get_yes_no_loop p a t s) = Inr (None, dur)
            then d \<noteq> [] \<and> declined (last d) \<and> \<not> list_ex declined (butlast d)
            else \<not> list_ex declined d)"
proof (induction "stdin s" arbitrary: s)
  case Nil
  then have "stdin s = []" by simp
  then show ?case using p by (simp add: get_yes_no_loop_Nil declined_def)
next
  case (Cons l ls)
  let ?q = "p @ '' (y/n): ''"
  let ?s1 = "s\<lparr>stdin := ls, prompts := prompts s @ [p @ '' (y/n): ''],
        dialogue := dialogue s @ [(p @ '' (y/n): '', Some l)]\<rparr>"
  define P :: "(abrupt + bool option \<times> int) \<times> state \<Rightarrow> bool" where
    "P r = (\<exists>d. dialogue (snd r) = dialogue s @ d \<and>
           (if \<exists>dur. fst r = Inr (None, dur)
            then d \<noteq> [] \<and> declined (last d) \<and> \<not> list_ex declined (butlast d)
            else \<not> list_ex declined d))" for r
  have st: "stdin s = l # ls" using Cons.hyps(2) by simp
  have nq: "\<not> declined (?q, Some l)" using p by (simp add: declined_def)
  from Cons.hyps(1) [of ?s1]
  obtain d where ih: "dialogue (snd (get_yes_no_loop p a t ?s1)) = dialogue s @ (?q, Some l) # d"
    "if \<exists>dur. fst (get_yes_no_loop p a t ?s1) = Inr (None, dur)
            then d \<noteq> [] \<and> declined (last d) \<and> \<not> list_ex declined (butlast d)
            else \<not> list_ex declined d"
    by auto
  have rec: "P (get_yes_no_loop p a t ?s1)"
    unfolding P_def
    using ih nq by (intro exI [of _ "(?q, Some l) # d"]) (auto split: if_splits)
  have c: "P (andthen (input continue_prompt) (\<lambda>line2.
                if lower (strip line2) \<notin> set [''y'', ''yes''] then
                  andthen (elapsed t) (\<lambda>d. return (None, d))
                else andthen (elapsed t) (\<lambda>d. return (Some False, d))) ?s1)"
  proof (cases ls)
    case Nil
    then show ?thesis unfolding P_def using nq
      by (simp add: andthen_def input_def declined_def)
  next
    case (Cons b rest)
    then show ?thesis unfolding P_def using nq
      by (simp add: andthen_def input_def elapsed_def time_time_def return_def declined_def)
  qed
  have e: "P (andthen (elapsed t) (\<lambda>d. return (Some x, d)) ?s1)" for x
    unfolding P_def using nq by (simp add: elapsed_eq)
  have "P (get_yes_no_loop p a t s)"
    unfolding get_yes_no_loop_Cons [OF st] Let_def
    using rec c e by simp
  then show ?case unfolding P_def .
qed


lemma calm_get_yes_no_input:
  assumes p: "p @ '' (y/n): '' \<noteq> continue_prompt"
  shows "sat calm (get_yes_no_input p False)"
  unfolding sat_def
proof
  fix s :: state
  let ?s0 = "s\<lparr>ticks := Suc (ticks s)\<rparr>"
  let ?r = "get_yes_no_loop p False (clock s (ticks s)) ?s0"
  have n: "\<not> (\<exists>dur. fst ?r = Inr (None, dur))"
    by (simp add: get_yes_no_loop_no_check split: option.splits)
  from get_yes_no_loop_dialogue [OF p, of False "clock s (ticks s)" ?s0] n
  have "\<exists>d. dialogue (snd ?r) = dialogue s @ d \<and> \<not> list_ex declined d"
    by auto
  then show "calm s (outcome (fst (get_yes_no_input p False s))) (snd (get_yes_no_input p False s))"
    by (simp add: get_yes_no_input_eq calm_def)
qed

lemma calm_reconnect_attempts: "sat calm (reconnect_attempts as n)"
proof -
  have "calm s (outcome (fst (reconnect_attempts as n s))) (snd (reconnect_attempts as n s))" for s
  proof (induction as arbitrary: s)
    case Nil
    show ?case by (simp add: calm_def)
  next
    case (Cons attempt rest)
    obtain r s1 where t: "transport Connect s = (r, s1)" by (cases "transport Connect s")
    have k1: "calm s x s1" for x
      using satD [OF calm_transport, where s = s and ev1 = Connect] t by (simp add: calm_def)
    obtain r2 s2 where w: "wait_for_enter (newline # ''Press Enter to retry SSH connection'') s1 = (r2, s2)"
      by (cases "wait_for_enter (newline # ''Press Enter to retry SSH connection'') s1")
    have k2: "calm s1 x s2" for x
      using satD [OF calm_wait_for_enter, where s = s1
                  and p1 = "newline # ''Press Enter to retry SSH connection''"] w
      by (simp add: calm_def)
    have tr: "calm x a y \<Longrightarrow> calm y b z \<Longrightarrow> calm x c z" for x a y b z c
      unfolding calm_def by (auto simp: list_ex_iff)
    have k12: "calm s x s2" for x
      by (rule tr [OF k1 k2])
    have k3: "calm s x (snd (reconnect_attempts rest n s2))" for x
      by (rule tr [OF k12 Cons [of s2]])
    from k1 k12 k3
    show ?case
      by (auto simp: t w split: sum.splits abrupt.splits)
  qed
  then show ?thesis by (simp add: sat_def)
qed

lemma calm_reconnect_ssh: "sat calm (reconnect_ssh n)"
  unfolding reconnect_ssh_def by (rule calm_reconnect_attempts)

lemmas calm_intros = sat_intros calm_time_time calm_transport calm_close_ssh
  calm_set_test_result calm_add_note calm_save_to_excel calm_abrupt calm_modify
  calm_wait_for_enter calm_elapsed calm_reconnect_ssh

lemma calm_mark_ssh_failed: "sat calm (mark_ssh_failed ts)"
  by (induction ts) (auto simp: if_selected_def selected_def intro!: calm_intros)

lemma calm_perform_ssh_tests: "sat calm perform_ssh_tests"
  unfolding perform_ssh_tests_def ssh_tests_body_def check_usb_devices_def test_T09_def
    test_T10_def test_T11_def test_T12_def test_T13_def test_T14_def if_selected_def
    selected_def on_ssh_error_def run_command_def run_interactive_def
    ssh_execute_command_def ssh_execute_interactive_def exec_command_def invoke_shell_def
  by (intro calm_intros calm_mark_ssh_failed calm_get_yes_no_input)
     (simp_all add: continue_prompt_def)

lemma calm_upload_python_files: "sat calm (upload_python_files fs t)"
proof -
  have f: "sat calm (fail_T01 t d)" for d
    unfolding fail_T01_def by (intro calm_intros)
  have "calm s (outcome (fst (upload_python_files fs t s))) (snd (upload_python_files fs t s))" for s
  proof (induction fs)
    case Nil
    show ?case by (simp add: calm_def)
  next
    case (Cons f' fs)
    from Cons satD [OF f]
    show ?case by (simp split: ampy_outcome.splits)
  qed
  then show ?thesis by (simp add: sat_def)
qed

lemma calm_upload_firmware_wipe: "sat calm upload_firmware_wipe"
  unfolding upload_firmware_wipe_def fail_T01_def
  by (intro calm_intros calm_upload_python_files)

lemma no_restart_upload_python_files: "sat no_restart (upload_python_files fs t)"
proof -
  have f: "sat no_restart (fail_T01 t d)" for d
    unfolding fail_T01_def by (intro no_restart_intros)
  have "no_restart s (outcome (fst (upload_python_files fs t s))) (snd (upload_python_files fs t s))" for s
  proof (induction fs)
    case Nil
    show ?case by (simp add: no_restart_def)
  next
    case (Cons f' fs)
    from Cons satD [OF f]
    show ?case by (simp split: ampy_outcome.splits)
  qed
  then show ?thesis by (simp add: sat_def)
qed

lemma no_restart_upload_firmware_wipe: "sat no_restart upload_firmware_wipe"
  unfolding upload_firmware_wipe_def fail_T01_def
  by (intro no_restart_intros no_restart_upload_python_files)


lemma compute_overall_pass_update:
  "compute_overall_pass (tr\<lparr>overall_pass := b\<rparr>) = compute_overall_pass tr"
  by (simp add: compute_overall_pass_def values_of_def)

lemma stop_save_continue:
  assumes "\<And>s. dialogue (f s) = dialogue s"
  shows "sat stop_rel (andthen (modify f) (\<lambda>_. andthen save_to_excel (\<lambda>_. abrupt Continue)))"
  using assms
  by (simp add: sat_def stop_rel_def andthen_def modify_def save_to_excel_def abrupt_def Let_def)

lemma stop_set_test_result: "sat stop_rel (set_test_result tid r d n)"
  by (rule quiet_imp_stop [OF no_restart_set_test_result calm_set_test_result])

lemma stop_operator_check:
  assumes p: "p @ '' (y/n): '' \<noteq> continue_prompt"
  shows "sat stop_rel (operator_check tid p)"
  unfolding sat_def
proof
  fix s :: state
  obtain r s1 where g: "get_yes_no_input p True s = (r, s1)"
    by (cases "get_yes_no_input p True s")
  from satD [OF keeps_get_yes_no_input, where s = s and p1 = p and a1 = True] g
  have k: "excel s1 = excel s" "restart_test s1 = restart_test s"
    "outcome r = None \<or> (\<exists>e. outcome r = Some (Raised e))"
    by (simp_all add: keeps_ledger_def)
  from get_yes_no_loop_dialogue [OF p, of True "clock s (ticks s)" "s\<lparr>ticks := Suc (ticks s)\<rparr>"] g
  obtain d where d: "dialogue s1 = dialogue s @ d"
    "if \<exists>dur. r = Inr (None, dur)
       then d \<noteq> [] \<and> declined (last d) \<and> \<not> list_ex declined (butlast d)
       else \<not> list_ex declined d"
    by (auto simp: get_yes_no_input_eq)
  show "stop_rel s (outcome (fst (operator_check tid p s))) (snd (operator_check tid p s))"
  proof (cases r)
    case (Inl a)
    with k d g show ?thesis
      by (auto simp: operator_check_def andthen_def stop_rel_def)
  next
    case (Inr v)
    obtain res dur where v: "v = (res, dur)" by (cases v)
    show ?thesis
    proof (cases res)
      case None
      with Inr v d have dd: "d \<noteq> []" "declined (last d)" "\<not> list_ex declined (butlast d)"
        by simp_all
      let ?tr = "(test_result s1)\<lparr>overall_pass := compute_overall_pass (test_result s1)\<rparr>"
      have o: "operator_check tid p s =
                 (Inl Continue, s1\<lparr>restart_test := True, test_result := ?tr,
                                  excel := excel s1 @ [row_of ?tr]\<rparr>)"
        using g Inr v None
        by (simp add: operator_check_def andthen_def modify_def save_to_excel_def abrupt_def
              Let_def)
      show ?thesis
        unfolding o stop_rel_def using d(1) dd k
        by (intro exI [of _ d]) (simp add: compute_overall_pass_update)
    next
      case (Some b)
      with Inr v d have c: "\<not> list_ex declined d" by simp
      have first: "stop_rel s None s1"
        unfolding stop_rel_def using d(1) c k by (intro exI [of _ d]) simp
      let ?m = "andthen (set_test_result tid (PyBool b) [] (Some dur)) (\<lambda>_. return b)"
      have "sat stop_rel ?m"
        by (intro sat_intros stop_set_test_result)
      from satD [OF this, of s1]
      have second: "stop_rel s1 (outcome (fst (?m s1))) (snd (?m s1))" .
      have o: "operator_check tid p s = ?m s1"
        using g Inr v Some by (simp add: operator_check_def andthen_def)
      from closed_trans [OF closed_stop_rel first second]
      show ?thesis unfolding o .
    qed
  qed
qed

lemma stop_visual_check:
  "p @ '' (y/n): '' \<noteq> continue_prompt \<Longrightarrow> sat stop_rel (visual_check tid p)"
  unfolding visual_check_def if_selected_def selected_def
  by (intro sat_intros stop_operator_check)

lemma stop_wait_for_enter: "sat stop_rel (wait_for_enter p)"
  by (rule quiet_imp_stop [OF keeps_imp_no_restart [OF keeps_wait_for_enter] calm_wait_for_enter])

lemma stop_firmware_step: "sat stop_rel firmware_step"
  unfolding firmware_step_def if_selected_def selected_def
  by (intro stop_save_continue sat_intros stop_wait_for_enter
        quiet_imp_stop [OF no_restart_upload_firmware_wipe calm_upload_firmware_wipe])
     simp

lemma stop_add_note: "sat stop_rel (add_note t)"
  by (rule quiet_imp_stop [OF no_restart_add_note calm_add_note])

lemma stop_run_tests: "sat stop_rel run_tests"
  unfolding run_tests_def local_tests_def hardware_assembly_def visual_checks_def
    ui_tests_def ssh_step_def selected_def
  by (intro sat_intros stop_firmware_step stop_wait_for_enter stop_visual_check
        stop_operator_check stop_add_note
        quiet_imp_stop [OF no_restart_perform_ssh_tests calm_perform_ssh_tests])
     (simp_all add: continue_prompt_def)

lemma calm_shutdown_cm5: "sat calm shutdown_cm5"
  unfolding shutdown_cm5_def ssh_execute_command_def exec_command_def
  by (intro calm_intros) simp

lemma calm_wrap_up: "sat calm wrap_up"
  unfolding wrap_up_def
  by (intro calm_intros calm_input calm_shutdown_cm5) (simp_all add: continue_prompt_def)

lemma calm_main_except: "sat calm (main_except e)"
  unfolding main_except_def
  by (intro calm_intros calm_input) (simp_all add: continue_prompt_def)

lemma calm_after_run_tests:
  "sat calm (try_except (andthen save_to_excel (\<lambda>_. wrap_up)) main_except)"
  by (intro calm_intros calm_wrap_up calm_main_except)


lemma main_pass_cases:
  assumes rt: "run_tests (s\<lparr>test_result := TestResult_init dev sel None None,
                            restart_test := False\<rparr>) = (r, s1)"
  shows "main_pass sel dev s =
           (case r of
              Inr u \<Rightarrow> try_except (andthen save_to_excel (\<lambda>_. wrap_up)) main_except s1
            | Inl (Raised e) \<Rightarrow> main_except e s1
            | Inl a \<Rightarrow> (Inl a, s1))"
  using rt
  by (simp add: main_pass_def main_try_body_def run_and_save_def andthen_def try_except_def
        modify_def split: sum.splits abrupt.splits prod.splits)

text \<open>
  C2 (amended). Take any pass of the main loop in which the operator answers No to a
  question and then declines to continue: the dialogue of the pass holds the question
  \<open>p\<close> with an answer \<open>n\<close> or \<open>no\<close>, followed by the question whether to continue with
  an answer that is not \<open>y\<close> or \<open>yes\<close>. Then nothing more is asked, \<open>restart_test\<close> is
  set, the ledger is finalized (\<open>overall_pass\<close> is computed) and saved as one row, and the
  pass ends with \<open>continue\<close>. Only the checks T02 to T07 ask whether to continue (lemma
  \<open>operator_check_stop\<close> gives what each of them does then).
\<close>

theorem stop_saves_then_restarts:
  assumes dlg: "dialogue (snd (main_pass sel dev s)) =
                  dialogue s @ d1 @ (p, Some a) # (continue_prompt, Some b) # d2"
    and no: "lower (strip a) \<in> set [''n'', ''no'']"
    and stop: "lower (strip b) \<notin> set [''y'', ''yes'']"
  shows "fst (main_pass sel dev s) = Inl Continue \<and>
         d2 = [] \<and>
         restart_test (snd (main_pass sel dev s)) \<and>
         overall_pass (test_result (snd (main_pass sel dev s))) =
           compute_overall_pass (test_result (snd (main_pass sel dev s))) \<and>
         excel (snd (main_pass sel dev s)) =
           excel s @ [row_of (test_result (snd (main_pass sel dev s)))]"
proof -
  let ?s0 = "s\<lparr>test_result := TestResult_init dev sel None None, restart_test := False\<rparr>"
  let ?x = "(continue_prompt, Some b)"
  obtain r s1 where rt: "run_tests ?s0 = (r, s1)" by (cases "run_tests ?s0")
  note mp = main_pass_cases [OF rt]
  have dec: "declined ?x" using stop by (simp add: declined_def)
  from satD [OF stop_run_tests, of ?s0] rt
  obtain d where d: "dialogue s1 = dialogue s @ d"
    and c: "(\<not> list_ex declined d \<and>
          (outcome r \<noteq> Some Continue \<longrightarrow> excel s1 = excel s \<and> restart_test s1 = False)) \<or>
         (d \<noteq> [] \<and> declined (last d) \<and> \<not> list_ex declined (butlast d) \<and>
          outcome r = Some Continue \<and> restart_test s1 \<and>
          excel s1 = excel s @ [row_of (test_result s1)] \<and>
          overall_pass (test_result s1) = compute_overall_pass (test_result s1))"
    unfolding stop_rel_def by auto
  show ?thesis
  proof (cases "r = Inl Continue")
    case True
    then have m: "main_pass sel dev s = (Inl Continue, s1)" by (simp add: mp)
    from dlg d have e: "d = d1 @ (p, Some a) # ?x # d2" by (simp add: m)
    then have "list_ex declined d" using dec by (auto simp: list_ex_iff)
    with c have b: "declined (last d)" "\<not> list_ex declined (butlast d)" "restart_test s1"
      "excel s1 = excel s @ [row_of (test_result s1)]"
      "overall_pass (test_result s1) = compute_overall_pass (test_result s1)"
      by blast+
    have "d2 = []"
    proof (rule ccontr)
      assume "d2 \<noteq> []"
      then have "?x \<in> set (butlast d)" by (simp add: e butlast_append)
      with dec b(2) show False by (auto simp: list_ex_iff)
    qed
    with b show ?thesis by (simp add: m)
  next
    case False
    with c have q: "\<not> list_ex declined d"
      by (cases r) auto
    have "calm s1 (outcome (fst (main_pass sel dev s))) (snd (main_pass sel dev s))"
    proof (cases r)
      case (Inr u)
      with satD [OF calm_after_run_tests, of s1] show ?thesis by (simp add: mp)
    next
      case (Inl x)
      show ?thesis
      proof (cases x)
        case (Raised e)
        with Inl satD [OF calm_main_except, where s = s1 and e1 = e] show ?thesis by (simp add: mp)
      next
        case Continue
        with Inl False show ?thesis by simp
      next
        case Break
        with Inl show ?thesis by (simp add: mp calm_def)
      qed
    qed
    then obtain d' where d': "dialogue (snd (main_pass sel dev s)) = dialogue s1 @ d'"
      "\<not> list_ex declined d'"
      unfolding calm_def by blast
    from dlg d d' have "d @ d' = d1 @ (p, Some a) # ?x # d2" by simp
    then have "?x \<in> set (d @ d')" by simp
    with q d'(2) dec have False by (auto simp: list_ex_iff)
    then show ?thesis ..
  qed
qed

lemma scenario_B_dialogue:
  "dialogue (snd (main_pass {T02} 1 scenario_B)) =
     [(newline # ''Unplug the board and insert: battery, camera module, e-ink display, SD card, and CM5. Press Enter when ready: '', Some []),
      (''Does the CM5 LED light up? (y/n): '', Some ''N''),
      (continue_prompt, Some ''stop'')]"
  by (simp add: main_pass_def main_try_body_def eval_defs scenario_B_def)

lemma stop_at_T07_dialogue:
  "dialogue (snd (main_pass {T02, T03, T04, T05, T06, T07} 1 stop_at_T07)) =
     [(newline # ''Unplug the board and insert: battery, camera module, e-ink display, SD card, and CM5. Press Enter when ready: '', Some []),
      (''Does the CM5 LED light up? (y/n): '', Some ''y''),
      (''Does the RGB LED light up? (y/n): '', Some ''y''),
      (''Does the e-ink bootup screen appear? (y/n): '', Some ''y''),
      (''Wait for WIFI UI to show up. Does the WIFI UI appear? (y/n): '', Some ''y''),
      (''Press a button. Does the button show on dmesg? (y/n): '', Some ''y''),
      (''Was your voice successfully transcribed? (y/n): '', Some '' no ''),
      (continue_prompt, Some [])]"
  by (simp add: main_pass_def main_try_body_def eval_defs stop_at_T07_def)

theorem stop_saves_then_restarts_witness:
  "dialogue (snd (main_pass {T02} 1 scenario_B)) =
     dialogue scenario_B @
     [(newline # ''Unplug the board and insert: battery, camera module, e-ink display, SD card, and CM5. Press Enter when ready: '', Some [])] @
     (''Does the CM5 LED light up? (y/n): '', Some ''N'') # (continue_prompt, Some ''stop'') # [] \<and>
   lower (strip ''N'') \<in> set [''n'', ''no''] \<and>
   lower (strip ''stop'') \<notin> set [''y'', ''yes''] \<and>
   fst (main_pass {T02} 1 scenario_B) = Inl Continue \<and>
   restart_test (snd (main_pass {T02} 1 scenario_B)) \<and>
   excel (snd (main_pass {T02} 1 scenario_B)) =
     excel scenario_B @ [row_of (test_result (snd (main_pass {T02} 1 scenario_B)))] \<and>
   dialogue (snd (main_pass {T02, T03, T04, T05, T06, T07} 1 stop_at_T07)) =
     dialogue stop_at_T07 @
     [(newline # ''Unplug the board and insert: battery, camera module, e-ink display, SD card, and CM5. Press Enter when ready: '', Some []),
      (''Does the CM5 LED light up? (y/n): '', Some ''y''),
      (''Does the RGB LED light up? (y/n): '', Some ''y''),
      (''Does the e-ink bootup screen appear? (y/n): '', Some ''y''),
      (''Wait for WIFI UI to show up. Does the WIFI UI appear? (y/n): '', Some ''y''),
      (''Press a button. Does the button show on dmesg? (y/n): '', Some ''y'')] @
     (''Was your voice successfully transcribed? (y/n): '', Some '' no '') #
     (continue_prompt, Some []) # [] \<and>
   lower (strip '' no '') \<in> set [''n'', ''no''] \<and>
   lower (strip []) \<notin> set [''y'', ''yes''] \<and>
   fst (main_pass {T02, T03, T04, T05, T06, T07} 1 stop_at_T07) = Inl Continue \<and>
   restart_test (snd (main_pass {T02, T03, T04, T05, T06, T07} 1 stop_at_T07)) \<and>
   excel (snd (main_pass {T02, T03, T04, T05, T06, T07} 1 stop_at_T07)) =
     excel stop_at_T07 @
     [row_of (test_result (snd (main_pass {T02, T03, T04, T05, T06, T07} 1 stop_at_T07)))]"
proof -
  have i: "dialogue scenario_B = []" "excel scenario_B = []"
    "dialogue stop_at_T07 = []" "excel stop_at_T07 = []"
    by (simp_all add: scenario_B_def stop_at_T07_def fresh_state_def)
  have a: "lower (strip ''N'') \<in> set [''n'', ''no'']"
    and b: "lower (strip ''stop'') \<notin> set [''y'', ''yes'']"
    and a': "lower (strip '' no '') \<in> set [''n'', ''no'']"
    and b': "lower (strip []) \<notin> set [''y'', ''yes'']"
    by (simp_all add: str_defs)
  have d: "dialogue (snd (main_pass {T02} 1 scenario_B)) =
     dialogue scenario_B @
     [(newline # ''Unplug the board and insert: battery, camera module, e-ink display, SD card, and CM5. Press Enter when ready: '', Some [])] @
     (''Does the CM5 LED light up? (y/n): '', Some ''N'') # (continue_prompt, Some ''stop'') # []"
    using scenario_B_dialogue by (simp add: i)
  have d': "dialogue (snd (main_pass {T02, T03, T04, T05, T06, T07} 1 stop_at_T07)) =
     dialogue stop_at_T07 @
     [(newline # ''Unplug the board and insert: battery, camera module, e-ink display, SD card, and CM5. Press Enter when ready: '', Some []),
      (''Does the CM5 LED light up? (y/n): '', Some ''y''),
      (''Does the RGB LED light up? (y/n): '', Some ''y''),
      (''Does the e-ink bootup screen appear? (y/n): '', Some ''y''),
      (''Wait for WIFI UI to show up. Does the WIFI UI appear? (y/n): '', Some ''y''),
      (''Press a button. Does the button show on dmesg? (y/n): '', Some ''y'')] @
     (''Was your voice successfully transcribed? (y/n): '', Some '' no '') #
     (continue_prompt, Some []) # []"
    using stop_at_T07_dialogue by (simp add: i)
  from stop_saves_then_restarts [OF d a b] stop_saves_then_restarts [OF d' a' b'] d d' a b a' b'
  show ?thesis by blast
qed

text \<open>
  C2 does not hold as it is stated: with the selection T02 and the answers Enter, No,
  No the pass ends with \<open>continue\<close>, but the spreadsheet, empty before, then holds the
  row of the abandoned ledger, finalized with \<open>overall_pass\<close> true.
\<close>

theorem stop_discards_counterexample:
  "fst (main_pass {T02} 1 (fresh_state {} ['''', ''n'', ''n''] ssh_down fw_all_ok)) = Inl Continue \<and>
   restart_test (snd (main_pass {T02} 1 (fresh_state {} ['''', ''n'', ''n''] ssh_down fw_all_ok))) \<and>
   excel (fresh_state {} ['''', ''n'', ''n''] ssh_down fw_all_ok) = [] \<and>
   map row_results (excel (snd (main_pass {T02} 1
       (fresh_state {} ['''', ''n'', ''n''] ssh_down fw_all_ok)))) =
     [[(T01, ''SKIPPED''), (T02, ''NOT RUN''), (T03, ''SKIPPED''), (T04, ''SKIPPED''),
       (T05, ''SKIPPED''), (T06, ''SKIPPED''), (T07, ''SKIPPED''), (T09, ''SKIPPED''),
       (T10, ''SKIPPED''), (T11, ''SKIPPED''), (T12, ''SKIPPED''), (T13, ''SKIPPED''),
       (T14, ''SKIPPED'')]] \<and>
   map row_overall_pass (excel (snd (main_pass {T02} 1
       (fresh_state {} ['''', ''n'', ''n''] ssh_down fw_all_ok)))) = [True]"
  by (simp add: main_pass_def main_try_body_def eval_defs row_of_def result_cell_def)

section \<open>The connection fails\<close>

lemma mark_ssh_failed_eq:
  "mark_ssh_failed ts s = (Inr (), s\<lparr>test_result := marked ts (test_result s)\<rparr>)"
proof (induction ts arbitrary: s)
  case Nil
  show ?case by (simp add: return_def)
next
  case (Cons t ts)
  show ?case
    by (simp add: andthen_def if_selected_def selected_def get_def when_do_def return_def
          set_test_result_eq Cons)
qed

lemma marked_tests_to_run [simp]: "tests_to_run (marked ts tr) = tests_to_run tr"
  by (induction ts arbitrary: tr) (simp_all add: recorded_fields)

lemma marked_notes [simp]: "notes_text (marked ts tr) = notes_text tr"
  by (induction ts arbitrary: tr) (simp_all add: recorded_fields)

lemma marked_results:
  "test_results (marked ts tr) t =
     (if t \<in> set ts \<and> t \<in> tests_to_run tr then Some (PyBool False) else test_results tr t)"
  by (induction ts arbitrary: tr) (auto simp: recorded_fields)

lemma marked_durations:
  "test_durations (marked ts tr) t =
     (if t \<in> set ts \<and> t \<in> tests_to_run tr then Some (Some 0) else test_durations tr t)"
  by (induction ts arbitrary: tr) (auto simp: recorded_fields)

lemma marked_log_mono: "set (log_file tr) \<subseteq> set (log_file (marked ts tr))"
proof (induction ts arbitrary: tr)
  case Nil
  show ?case by simp
next
  case (Cons t ts)
  let ?tr1 = "if t \<in> tests_to_run tr
              then recorded t (PyBool False) ''SSH connection failed'' 0 tr else tr"
  have "set (log_file tr) \<subseteq> set (log_file ?tr1)"
    by (auto simp: recorded_fields)
  also have "\<dots> \<subseteq> set (log_file (marked ts ?tr1))" by (rule Cons.IH)
  finally show ?case by simp
qed

lemma marked_log:
  "t \<in> set ts \<Longrightarrow> t \<in> tests_to_run tr \<Longrightarrow>
   \<lparr>le_test = t, le_name = the (map_of TEST_IDS t), le_status = ''FAIL'',
     le_duration = Some 0, le_details = ''SSH connection failed''\<rparr> \<in> set (log_file (marked ts tr))"
proof (induction ts arbitrary: tr)
  case Nil
  then show ?case by simp
next
  case (Cons x xs)
  show ?case
  proof (cases "t = x")
    case True
    let ?tr1 = "recorded x (PyBool False) ''SSH connection failed'' 0 tr"
    have "\<lparr>le_test = t, le_name = the (map_of TEST_IDS t), le_status = ''FAIL'',
            le_duration = Some 0, le_details = ''SSH connection failed''\<rparr> \<in> set (log_file ?tr1)"
      using True by (simp add: recorded_fields status_text_def)
    with marked_log_mono [of ?tr1 xs] True Cons.prems show ?thesis by auto
  next
    case False
    with Cons.prems have "t \<in> set xs" by simp
    from Cons.IH [OF this] Cons.prems(2) show ?thesis by (simp add: recorded_fields)
  qed
qed

lemma reconnect_all_fail:
  assumes env: "\<forall>i<5. \<exists>e. ssh_env s (ssh_ops s + i) = Raises e"
    and inp: "stdin s = l1 # l2 # l3 # l4 # rest"
  shows "reconnect_ssh 5 s =
           (Inr None,
            s\<lparr>ssh_ops := ssh_ops s + 5,
              ssh_trace := ssh_trace s @ [Connect, Connect, Connect, Connect, Connect],
              stdin := rest,
              prompts := prompts s @ [retry_prompt, retry_prompt, retry_prompt, retry_prompt],
              dialogue := dialogue s @ [(retry_prompt, Some l1), (retry_prompt, Some l2),
                (retry_prompt, Some l3), (retry_prompt, Some l4)]\<rparr>)"
proof -
  from env [rule_format, of 0] obtain e0 where e0: "ssh_env s (ssh_ops s) = Raises e0"
    by auto
  from env [rule_format, of 1] obtain e1 where e1: "ssh_env s (Suc (ssh_ops s)) = Raises e1"
    by auto
  from env [rule_format, of 2] obtain e2 where e2: "ssh_env s (Suc (Suc (ssh_ops s))) = Raises e2"
    by auto
  from env [rule_format, of 3] obtain e3
    where e3: "ssh_env s (Suc (Suc (Suc (ssh_ops s)))) = Raises e3"
    by (auto simp: numeral_3_eq_3)
  from env [rule_format, of 4] obtain e4
    where e4: "ssh_env s (Suc (Suc (Suc (Suc (ssh_ops s))))) = Raises e4"
    by (auto simp: numeral_eq_Suc)
  show ?thesis
    by (simp add: reconnect_ssh_def upt_5 transport_def wait_for_enter_def input_def andthen_def
          return_def Let_def inp e0 e1 e2 e3 e4 retry_prompt_def)
qed

text \<open>
  C6 (amended). Let the groups before the remote checks end normally, let some remote
  check be selected, and let the first connection fail at all five attempts (the
  operator presses Enter between them). Then no command is sent; every selected remote
  check is recorded as failed with duration 0 and the detail \<open>SSH connection failed\<close>;
  the other entries stay as they were; both notes are added; and the session goes on to
  \<open>save_to_excel\<close>, which finalizes the ledger with \<open>overall_pass\<close> false and saves one row.
\<close>

theorem initial_connection_failure:
  assumes before: "local_tests s0 = (Inr (), s)"
    and some: "list_ex (\<lambda>t. t \<in> tests_to_run (test_result s)) ssh_test_ids"
    and env: "\<forall>i<5. \<exists>e. ssh_env s (ssh_ops s + i) = Raises e"
    and inp: "stdin s = l1 # l2 # l3 # l4 # rest"
  shows "fst (run_and_save s0) = Inr () \<and>
         (\<forall>t \<in> set ssh_test_ids. t \<in> tests_to_run (test_result s) \<longrightarrow>
            test_results (test_result (snd (run_and_save s0))) t = Some (PyBool False) \<and>
            test_durations (test_result (snd (run_and_save s0))) t = Some (Some 0) \<and>
            \<lparr>le_test = t, le_name = the (map_of TEST_IDS t), le_status = ''FAIL'',
              le_duration = Some 0, le_details = ''SSH connection failed''\<rparr>
              \<in> set (log_file (test_result (snd (run_and_save s0))))) \<and>
         (\<forall>t. t \<notin> set ssh_test_ids \<longrightarrow>
            test_results (test_result (snd (run_and_save s0))) t = test_results (test_result s) t) \<and>
         notes_text (test_result (snd (run_and_save s0))) =
           notes_text (test_result s) @ '' Initial SSH connection failed after 5 attempts.'' @
           '' SSH tests incomplete.'' \<and>
         ssh_trace (snd (run_and_save s0)) =
           ssh_trace s @ [Connect, Connect, Connect, Connect, Connect] \<and>
         \<not> overall_pass (test_result (snd (run_and_save s0))) \<and>
         excel (snd (run_and_save s0)) = excel s @ [row_of (test_result (snd (run_and_save s0)))]"
proof -
  let ?sel = "tests_to_run (test_result s)"
  let ?s1 = "s\<lparr>ssh_ops := ssh_ops s + 5,
              ssh_trace := ssh_trace s @ [Connect, Connect, Connect, Connect, Connect],
              stdin := rest,
              prompts := prompts s @ [retry_prompt, retry_prompt, retry_prompt, retry_prompt],
              dialogue := dialogue s @ [(retry_prompt, Some l1), (retry_prompt, Some l2),
                (retry_prompt, Some l3), (retry_prompt, Some l4)]\<rparr>"
  let ?tr1 = "(test_result s)\<lparr>notes_text := notes_text (test_result s) @
                 '' Initial SSH connection failed after 5 attempts.''\<rparr>"
  let ?tr2 = "marked ssh_test_ids ?tr1"
  let ?tr3 = "?tr2\<lparr>notes_text := notes_text ?tr2 @ '' SSH tests incomplete.''\<rparr>"
  let ?tr4 = "?tr3\<lparr>overall_pass := compute_overall_pass ?tr3\<rparr>"
  let ?s2 = "?s1\<lparr>v_ssh := None, test_result := ?tr3\<rparr>"
  let ?s' = "?s1\<lparr>v_ssh := None, test_result := ?tr4, excel := excel s @ [row_of ?tr4]\<rparr>"
  have p: "perform_ssh_tests s = (Inr False, ?s1\<lparr>v_ssh := None, test_result := ?tr2\<rparr>)"
    by (simp add: perform_ssh_tests_def andthen_def reconnect_all_fail [OF env inp] modify_def
          add_note_def mark_ssh_failed_eq return_def)
  have st: "ssh_step s = (Inr (), ?s2)"
    using some
    by (simp add: ssh_step_def andthen_def get_def when_do_def p add_note_def modify_def
          ssh_test_ids_def)
  have rs: "run_and_save s0 = (Inr (), ?s')"
    by (simp add: run_and_save_def run_tests_def andthen_def before st save_to_excel_def Let_def)
  from some obtain t0 where t0: "t0 \<in> set ssh_test_ids" "t0 \<in> ?sel"
    by (auto simp: list_ex_iff)
  have r3: "test_results ?tr3 t =
              (if t \<in> set ssh_test_ids \<and> t \<in> ?sel then Some (PyBool False)
               else test_results (test_result s) t)" for t
    by (simp add: marked_results)
  have d3: "test_durations ?tr3 t =
              (if t \<in> set ssh_test_ids \<and> t \<in> ?sel then Some (Some 0)
               else test_durations (test_result s) t)" for t
    by (simp add: marked_durations)
  have l3: "\<lparr>le_test = t, le_name = the (map_of TEST_IDS t), le_status = ''FAIL'',
              le_duration = Some 0, le_details = ''SSH connection failed''\<rparr>
              \<in> set (log_file ?tr3)" if "t \<in> set ssh_test_ids" "t \<in> ?sel" for t
    using marked_log [OF that(1), of ?tr1] that(2) by simp
  have np: "\<not> compute_overall_pass ?tr3"
    using r3 [of t0] t0 by (intro failed_entry_fails_overall [of _ t0]) simp
  show ?thesis
    unfolding rs using np r3 d3 l3 by simp
qed

theorem initial_connection_failure_witness:
  "local_tests (fresh_state {T09, T13} [[], [], [], []] ssh_down fw_all_ok) =
     (Inr (), fresh_state {T09, T13} [[], [], [], []] ssh_down fw_all_ok) \<and>
   stdin (fresh_state {T09, T13} [[], [], [], []] ssh_down fw_all_ok) =
     [[], [], [], []] \<and>
   fst (run_and_save (fresh_state {T09, T13} [[], [], [], []] ssh_down fw_all_ok)) = Inr () \<and>
   test_results (test_result (snd (run_and_save
      (fresh_state {T09, T13} [[], [], [], []] ssh_down fw_all_ok)))) T09 = Some (PyBool False) \<and>
   test_results (test_result (snd (run_and_save
      (fresh_state {T09, T13} [[], [], [], []] ssh_down fw_all_ok)))) T13 = Some (PyBool False) \<and>
   \<not> overall_pass (test_result (snd (run_and_save
      (fresh_state {T09, T13} [[], [], [], []] ssh_down fw_all_ok))))"
proof -
  let ?s = "fresh_state {T09, T13} [[], [], [], []] ssh_down fw_all_ok"
  have b: "local_tests ?s = (Inr (), ?s)"
    by (simp add: local_tests_def eval_defs)
  have sel: "tests_to_run (test_result ?s) = {T09, T13}"
    by (simp add: fresh_state_def init_fields)
  have some: "list_ex (\<lambda>t. t \<in> tests_to_run (test_result ?s)) ssh_test_ids"
    by (simp add: sel ssh_test_ids_def)
  have env: "\<forall>i<5. \<exists>e. ssh_env ?s (ssh_ops ?s + i) = Raises e"
    by (simp add: fresh_state_def ssh_down_def)
  have inp: "stdin ?s = [[], [], [], []]"
    by (simp add: fresh_state_def)
  from initial_connection_failure [OF b some env inp] b inp
  show ?thesis by (simp add: sel ssh_test_ids_def)
qed

text \<open>
  C6 does not hold for a connection that fails later in the group. Here \<open>lsblk\<close> fails and
  all five attempts to reconnect fail: T13 alone is recorded as failed, with the detail
  \<open>SSH reconnection failed\<close>; the group goes on, T14 reconnects at its first attempt and
  passes.
\<close>

theorem connection_failure_counterexample:
  "fst (run_and_save (fresh_state {T13, T14} [[], [], [], []] ssh_drops_at_lsblk fw_all_ok))
     = Inr () \<and>
   ssh_trace (snd (run_and_save
      (fresh_state {T13, T14} [[], [], [], []] ssh_drops_at_lsblk fw_all_ok))) =
     [Connect, ExecCommand ''lsusb'', ExecCommand ''lsblk'', Close,
      Connect, Connect, Connect, Connect, Connect,
      Connect, ExecCommand ''libcamera-hello'', Close] \<and>
   log_file (test_result (snd (run_and_save
      (fresh_state {T13, T14} [[], [], [], []] ssh_drops_at_lsblk fw_all_ok)))) =
     [\<lparr>le_test = T13, le_name = ''SD Card Detection'', le_status = ''FAIL'',
       le_duration = Some 1, le_details = ''SSH reconnection failed''\<rparr>,
      \<lparr>le_test = T14, le_name = ''Camera Detection'', le_status = ''PASS'',
       le_duration = Some 1, le_details = ''Camera OK''\<rparr>] \<and>
   test_results (test_result (snd (run_and_save
      (fresh_state {T13, T14} [[], [], [], []] ssh_drops_at_lsblk fw_all_ok)))) T14 =
     Some (PyBool True)"
  by (simp add: eval_defs ssh_drops_at_lsblk_def upt_5)

section \<open>A command that fails is not always retried\<close>

text \<open>
  C5, at an input where the code does not do what the claim says. T12 is selected and
  the connection drops after \<open>lsusb\<close>. The check for the LED script fails, and nothing
  reconnects or retries it: its error is not looked at. The LED program then fails
  too; \<open>ssh_execute_interactive\<close> returns the bare exception text, without the marker
  \<open>SSH_ERROR\<close> that the caller searches for, so the block that reconnects and retries is
  not entered. The trace holds one connection and one run of each command. The operator
  is asked all the same, answers yes, and T12 and the session pass.
\<close>

theorem led_command_failure_not_retried:
  "fst (run_and_save (fresh_state {T12} [''y''] ssh_drops_after_lsusb fw_all_ok)) = Inr () \<and>
   ssh_trace (snd (run_and_save (fresh_state {T12} [''y''] ssh_drops_after_lsusb fw_all_ok))) =
     [Connect, ExecCommand ''lsusb'', ExecCommand rgb_led_check_command,
      InvokeShell (''python3 '' @ RGB_LED_TEST_PATH), Close] \<and>
   v_error (snd (run_and_save (fresh_state {T12} [''y''] ssh_drops_after_lsusb fw_all_ok))) =
     ''Socket is closed'' \<and>
   prompts (snd (run_and_save (fresh_state {T12} [''y''] ssh_drops_after_lsusb fw_all_ok))) =
     [''Did you see the RGB LED cycle through different colors? (y/n): ''] \<and>
   test_results (test_result (snd (run_and_save
     (fresh_state {T12} [''y''] ssh_drops_after_lsusb fw_all_ok)))) T12 = Some (PyBool True) \<and>
   overall_pass (test_result (snd (run_and_save
     (fresh_state {T12} [''y''] ssh_drops_after_lsusb fw_all_ok))))"
  by (simp add: eval_defs ssh_drops_after_lsusb_def upt_5)

section \<open>The interface tests depend on T05\<close>

lemma elapsed_return_eq:
  "andthen (elapsed t) (\<lambda>d. return (x, d)) s =
     (Inr (x, py_int (clock s (ticks s) - t)), s\<lparr>ticks := Suc (ticks s)\<rparr>)"
  by (simp add: elapsed_def andthen_def time_time_def return_def)

lemma input_andthen_Nil:
  "stdin s = [] \<Longrightarrow>
   andthen (input q) f s =
     (Inl (Raised ''EOF when reading a line''), s\<lparr>prompts := prompts s @ [q], dialogue := dialogue s @ [(q, None)]\<rparr>)"
  by (simp add: andthen_def input_def)

lemma input_andthen_Cons:
  "stdin s = l # ls \<Longrightarrow>
   andthen (input q) f s = f l (s\<lparr>stdin := ls, prompts := prompts s @ [q],
        dialogue := dialogue s @ [(q, Some l)]\<rparr>)"
  by (simp add: andthen_def input_def)

lemma get_yes_no_loop_prompts:
  "\<exists>ps. prompts (snd (get_yes_no_loop p a t s)) = prompts s @ (p @ '' (y/n): '') # ps \<and>
        set ps \<subseteq> {p @ '' (y/n): '', continue_prompt}"
proof (induction "stdin s" arbitrary: s)
  case Nil
  then have "stdin s = []" by simp
  then show ?case by (simp add: get_yes_no_loop_Nil)
next
  case (Cons l ls)
  let ?s1 = "s\<lparr>stdin := ls, prompts := prompts s @ [p @ '' (y/n): ''],
        dialogue := dialogue s @ [(p @ '' (y/n): '', Some l)]\<rparr>"
  have st: "stdin s = l # ls" using Cons.hyps(2) by simp
  from Cons.hyps(1) [of ?s1]
  obtain ps where ih: "prompts (snd (get_yes_no_loop p a t ?s1)) =
       prompts s @ (p @ '' (y/n): '') # (p @ '' (y/n): '') # ps"
     "set ps \<subseteq> {p @ '' (y/n): '', continue_prompt}"
    by auto
  have c: "\<exists>ps. prompts (snd (andthen (input continue_prompt) (\<lambda>line2.
                if lower (strip line2) \<notin> set [''y'', ''yes''] then
                  andthen (elapsed t) (\<lambda>d. return (None, d))
                else andthen (elapsed t) (\<lambda>d. return (Some False, d))) ?s1)) =
              prompts s @ (p @ '' (y/n): '') # ps \<and>
              set ps \<subseteq> {p @ '' (y/n): '', continue_prompt}"
    by (cases ls) (simp_all add: input_andthen_Nil input_andthen_Cons elapsed_return_eq)
  show ?case
    unfolding get_yes_no_loop_Cons [OF st] Let_def
    using ih c by (auto simp: elapsed_return_eq)
qed

lemma get_yes_no_input_prompts:
  "\<exists>ps. prompts (snd (get_yes_no_input p a s)) = prompts s @ (p @ '' (y/n): '') # ps \<and>
        set ps \<subseteq> {p @ '' (y/n): '', continue_prompt}"
  unfolding get_yes_no_input_eq
  using get_yes_no_loop_prompts [of p a "clock s (ticks s)" "s\<lparr>ticks := Suc (ticks s)\<rparr>"]
  by simp

lemma get_yes_no_input_ledger:
  "test_result (snd (get_yes_no_input p a s)) = test_result s"
  using satD [OF keeps_get_yes_no_input, where s = s and ?p1 = p and ?a1 = a]
  by (simp add: keeps_ledger_def)

lemma operator_check_effect:
  "\<exists>ps. prompts (snd (operator_check tid p s)) = prompts s @ (p @ '' (y/n): '') # ps \<and>
        set ps \<subseteq> {p @ '' (y/n): '', continue_prompt} \<and>
        tests_to_run (test_result (snd (operator_check tid p s))) = tests_to_run (test_result s) \<and>
        (\<forall>t. t \<noteq> tid \<longrightarrow>
           test_results (test_result (snd (operator_check tid p s))) t =
             test_results (test_result s) t) \<and>
        ((\<exists>b. fst (operator_check tid p s) = Inr b \<and>
              test_results (test_result (snd (operator_check tid p s))) tid = Some (PyBool b)) \<or>
         ((\<exists>a. fst (operator_check tid p s) = Inl a) \<and>
              test_results (test_result (snd (operator_check tid p s))) tid =
                test_results (test_result s) tid))"
proof -
  obtain r s1 where g: "get_yes_no_input p True s = (r, s1)"
    by (cases "get_yes_no_input p True s")
  from get_yes_no_input_prompts [of p True s] g
  obtain ps where ps: "prompts s1 = prompts s @ (p @ '' (y/n): '') # ps"
     "set ps \<subseteq> {p @ '' (y/n): '', continue_prompt}"
    by auto
  from get_yes_no_input_ledger [of p True s] g have l: "test_result s1 = test_result s" by simp
  show ?thesis
  proof (cases r)
    case (Inl a)
    with g ps l show ?thesis by (simp add: operator_check_def andthen_def)
  next
    case (Inr x)
    obtain res d where x: "x = (res, d)" by (cases x)
    show ?thesis
    proof (cases res)
      case None
      with g Inr x ps l show ?thesis
        by (simp add: operator_check_def andthen_def modify_def save_to_excel_def Let_def
              abrupt_def)
    next
      case (Some b)
      with g Inr x ps l show ?thesis
        by (simp add: operator_check_def andthen_def set_test_result_eq return_def
              recorded_fields)
    qed
  qed
qed

lemma visual_check_effect:
  "\<exists>new. prompts (snd (visual_check tid p s)) = prompts s @ new \<and>
        set new \<subseteq> {p @ '' (y/n): '', continue_prompt} \<and>
        (p @ '' (y/n): '' \<in> set new \<longleftrightarrow> tid \<in> tests_to_run (test_result s)) \<and>
        tests_to_run (test_result (snd (visual_check tid p s))) = tests_to_run (test_result s) \<and>
        (\<forall>t. t \<noteq> tid \<longrightarrow>
           test_results (test_result (snd (visual_check tid p s))) t =
             test_results (test_result s) t) \<and>
        ((fst (visual_check tid p s) = Inr () \<and>
          (tid \<in> tests_to_run (test_result s) \<longrightarrow>
             (\<exists>b. test_results (test_result (snd (visual_check tid p s))) tid = Some (PyBool b)))) \<or>
         ((\<exists>a. fst (visual_check tid p s) = Inl a) \<and> tid \<in> tests_to_run (test_result s) \<and>
          test_results (test_result (snd (visual_check tid p s))) tid =
            test_results (test_result s) tid))"
proof (cases "tid \<in> tests_to_run (test_result s)")
  case False
  then have "visual_check tid p s = (Inr (), s)"
    by (simp add: visual_check_def if_selected_def selected_def get_def andthen_def when_do_def
          return_def)
  with False show ?thesis by simp
next
  case True
  obtain r s1 where o: "operator_check tid p s = (r, s1)" by (cases "operator_check tid p s")
  have v: "visual_check tid p s = (case r of Inl a \<Rightarrow> (Inl a, s1) | Inr b \<Rightarrow> (Inr (), s1))"
    using True o
    by (simp add: visual_check_def if_selected_def selected_def get_def andthen_def when_do_def
          return_def split: sum.splits)
  from operator_check_effect [of tid p s] o True show ?thesis
    unfolding v by (cases r) auto
qed

lemma dependent_checks_effect:
  assumes fresh: "T06 \<in> tests_to_run (test_result s) \<longrightarrow>
                  test_results (test_result s) T06 = Some PyNone"
    and d6c: "p6 @ '' (y/n): '' \<noteq> continue_prompt"
    and d7c: "p7 @ '' (y/n): '' \<noteq> continue_prompt"
    and d67: "p6 \<noteq> p7"
  defines "D \<equiv> andthen (visual_check T06 p6) (\<lambda>_. visual_check T07 p7)"
  shows "\<exists>new. prompts (snd (D s)) = prompts s @ new \<and>
           (p6 @ '' (y/n): '' \<in> set new \<longleftrightarrow> T06 \<in> tests_to_run (test_result s)) \<and>
           (p7 @ '' (y/n): '' \<in> set new
              \<longleftrightarrow> T07 \<in> tests_to_run (test_result s) \<and>
                  (T06 \<in> tests_to_run (test_result s) \<longrightarrow>
                     test_results (test_result (snd (D s))) T06 \<noteq> Some PyNone)) \<and>
           test_results (test_result (snd (D s))) T05 = test_results (test_result s) T05 \<and>
           (T06 \<notin> tests_to_run (test_result s) \<longrightarrow>
              test_results (test_result (snd (D s))) T06 = test_results (test_result s) T06)"
proof -
  obtain r s1 where v6: "visual_check T06 p6 s = (r, s1)" by (cases "visual_check T06 p6 s")
  from visual_check_effect [of T06 p6 s] v6
  obtain new1 where n1: "prompts s1 = prompts s @ new1"
    "set new1 \<subseteq> {p6 @ '' (y/n): '', continue_prompt}"
    "p6 @ '' (y/n): '' \<in> set new1 \<longleftrightarrow> T06 \<in> tests_to_run (test_result s)"
    "tests_to_run (test_result s1) = tests_to_run (test_result s)"
    "\<forall>t. t \<noteq> T06 \<longrightarrow> test_results (test_result s1) t = test_results (test_result s) t"
    and alt: "(r = Inr () \<and> (T06 \<in> tests_to_run (test_result s) \<longrightarrow>
                (\<exists>b. test_results (test_result s1) T06 = Some (PyBool b)))) \<or>
              ((\<exists>a. r = Inl a) \<and> T06 \<in> tests_to_run (test_result s) \<and>
                test_results (test_result s1) T06 = test_results (test_result s) T06)"
    by auto
  have q7: "p7 @ '' (y/n): '' \<notin> set new1"
    using n1(2) d7c d67 by auto
  show ?thesis
  proof (cases r)
    case (Inl a)
    then have d: "D s = (Inl a, s1)" by (simp add: D_def andthen_def v6)
    from Inl alt fresh have "T06 \<in> tests_to_run (test_result s)"
      "test_results (test_result s1) T06 = Some PyNone" by auto
    with n1 q7 show ?thesis unfolding d by auto
  next
    case (Inr u)
    then have d: "D s = visual_check T07 p7 s1" by (simp add: D_def andthen_def v6)
    from Inr alt have b6: "T06 \<in> tests_to_run (test_result s) \<longrightarrow>
        (\<exists>b. test_results (test_result s1) T06 = Some (PyBool b))" by auto
    from visual_check_effect [of T07 p7 s1]
    obtain new2 where n2: "prompts (snd (visual_check T07 p7 s1)) = prompts s1 @ new2"
      "set new2 \<subseteq> {p7 @ '' (y/n): '', continue_prompt}"
      "p7 @ '' (y/n): '' \<in> set new2 \<longleftrightarrow> T07 \<in> tests_to_run (test_result s1)"
      "\<forall>t. t \<noteq> T07 \<longrightarrow> test_results (test_result (snd (visual_check T07 p7 s1))) t =
             test_results (test_result s1) t"
      by auto
    have q6: "p6 @ '' (y/n): '' \<notin> set new2"
      using n2(2) d6c d67 by auto
    have p: "prompts (snd (D s)) = prompts s @ (new1 @ new2)"
      unfolding d using n1(1) n2(1) by simp
    have r6: "test_results (test_result (snd (D s))) T06 = test_results (test_result s1) T06"
      unfolding d using n2(4) by simp
    have r6': "T06 \<notin> tests_to_run (test_result s) \<longrightarrow>
                test_results (test_result (snd (D s))) T06 = test_results (test_result s) T06"
    proof
      assume ns: "T06 \<notin> tests_to_run (test_result s)"
      then have "visual_check T06 p6 s = (Inr (), s)"
        by (simp add: visual_check_def if_selected_def selected_def get_def andthen_def
              when_do_def return_def)
      with v6 have "s1 = s" by simp
      with r6 show "test_results (test_result (snd (D s))) T06 = test_results (test_result s) T06"
        by simp
    qed
    have r5: "test_results (test_result (snd (D s))) T05 = test_results (test_result s) T05"
      unfolding d using n2(4) n1(5) by simp
    have a6: "p6 @ '' (y/n): '' \<in> set (new1 @ new2) \<longleftrightarrow> T06 \<in> tests_to_run (test_result s)"
      using n1(3) q6 by simp
    have a7: "p7 @ '' (y/n): '' \<in> set (new1 @ new2)
                \<longleftrightarrow> T07 \<in> tests_to_run (test_result s) \<and>
                  (T06 \<in> tests_to_run (test_result s) \<longrightarrow>
                     test_results (test_result (snd (D s))) T06 \<noteq> Some PyNone)"
      using n2(3) q7 n1(4) b6 r6 by auto
    from p a6 a7 r5 r6' show ?thesis by blast
  qed
qed

lemma asked_iff:
  "prompts s' = prompts s @ new \<Longrightarrow> asked p s s' \<longleftrightarrow> p @ '' (y/n): '' \<in> set new"
  by (simp add: asked_def)

lemma unset_entry_excluded:
  assumes "test_results tr t = Some PyNone"
  shows "compute_overall_pass tr =
           compute_overall_pass (tr\<lparr>test_results := (test_results tr)(t := None)\<rparr>)"
proof -
  have "v \<in> ran (test_results tr) \<longleftrightarrow> v \<in> ran ((test_results tr)(t := None))"
    if "v \<noteq> PyNone" for v
  proof
    assume "v \<in> ran (test_results tr)"
    then obtain k where k: "test_results tr k = Some v" by (auto simp: ran_def)
    with assms that have "k \<noteq> t" by auto
    with k show "v \<in> ran ((test_results tr)(t := None))" by (auto simp: ran_def)
  next
    assume "v \<in> ran ((test_results tr)(t := None))"
    then show "v \<in> ran (test_results tr)" by (auto simp: ran_def split: if_splits)
  qed
  then show ?thesis
    unfolding compute_overall_pass_iff by auto
qed

lemma ui_general:
  fixes p5 p6 p7 :: string
  defines "U \<equiv> andthen (selected T05) (\<lambda>t05_selected.
     andthen (if t05_selected then operator_check T05 p5 else return False) (\<lambda>ui_appears.
     when_do (ui_appears \<or> \<not> t05_selected)
       (andthen (visual_check T06 p6) (\<lambda>_. visual_check T07 p7))))"
  assumes f5: "T05 \<in> tests_to_run (test_result s) \<longrightarrow>
               test_results (test_result s) T05 = Some PyNone"
    and f6: "T06 \<in> tests_to_run (test_result s) \<longrightarrow>
             test_results (test_result s) T06 = Some PyNone"
    and d5c: "p5 @ '' (y/n): '' \<noteq> continue_prompt"
    and d6c: "p6 @ '' (y/n): '' \<noteq> continue_prompt"
    and d7c: "p7 @ '' (y/n): '' \<noteq> continue_prompt"
    and d56: "p5 \<noteq> p6" and d57: "p5 \<noteq> p7" and d67: "p6 \<noteq> p7"
  shows "(asked p6 s (snd (U s)) \<longleftrightarrow>
            T06 \<in> tests_to_run (test_result s) \<and>
            (T05 \<notin> tests_to_run (test_result s) \<or>
             test_results (test_result (snd (U s))) T05 = Some (PyBool True))) \<and>
         (asked p7 s (snd (U s)) \<longleftrightarrow>
            T07 \<in> tests_to_run (test_result s) \<and>
            (T05 \<notin> tests_to_run (test_result s) \<or>
             test_results (test_result (snd (U s))) T05 = Some (PyBool True)) \<and>
            (T06 \<in> tests_to_run (test_result s) \<longrightarrow>
               test_results (test_result (snd (U s))) T06 \<noteq> Some PyNone)) \<and>
         (T05 \<in> tests_to_run (test_result s) \<and>
          test_results (test_result (snd (U s))) T05 \<noteq> Some (PyBool True) \<longrightarrow>
            test_results (test_result (snd (U s))) T06 = test_results (test_result s) T06 \<and>
            test_results (test_result (snd (U s))) T07 = test_results (test_result s) T07) \<and>
         (\<forall>x t. test_results (test_result x) t = Some PyNone \<longrightarrow>
            overall_pass (test_result (snd (save_to_excel x))) =
              compute_overall_pass
                ((test_result x)\<lparr>test_results := (test_results (test_result x))(t := None)\<rparr>))"
proof -
  let ?D = "andthen (visual_check T06 p6) (\<lambda>_. visual_check T07 p7)"
  let ?sel = "tests_to_run (test_result s)"
  have excl: "\<forall>x t. test_results (test_result x) t = Some PyNone \<longrightarrow>
            overall_pass (test_result (snd (save_to_excel x))) =
              compute_overall_pass
                ((test_result x)\<lparr>test_results := (test_results (test_result x))(t := None)\<rparr>)"
    using unset_entry_excluded by (simp add: save_to_excel_overall)
  have main: "(asked p6 s (snd (U s)) \<longleftrightarrow>
            T06 \<in> tests_to_run (test_result s) \<and>
            (T05 \<notin> tests_to_run (test_result s) \<or>
             test_results (test_result (snd (U s))) T05 = Some (PyBool True))) \<and>
         (asked p7 s (snd (U s)) \<longleftrightarrow>
            T07 \<in> tests_to_run (test_result s) \<and>
            (T05 \<notin> tests_to_run (test_result s) \<or>
             test_results (test_result (snd (U s))) T05 = Some (PyBool True)) \<and>
            (T06 \<in> tests_to_run (test_result s) \<longrightarrow>
               test_results (test_result (snd (U s))) T06 \<noteq> Some PyNone)) \<and>
         (T05 \<in> tests_to_run (test_result s) \<and>
          test_results (test_result (snd (U s))) T05 \<noteq> Some (PyBool True) \<longrightarrow>
            test_results (test_result (snd (U s))) T06 = test_results (test_result s) T06 \<and>
            test_results (test_result (snd (U s))) T07 = test_results (test_result s) T07)"
  proof (cases "T05 \<in> ?sel")
    case False
    then have u: "U s = ?D s"
      by (simp add: U_def selected_def get_def andthen_def when_do_def return_def)
    from dependent_checks_effect [OF f6 d6c d7c d67]
    obtain new where n: "prompts (snd (?D s)) = prompts s @ new"
      "p6 @ '' (y/n): '' \<in> set new \<longleftrightarrow> T06 \<in> ?sel"
      "p7 @ '' (y/n): '' \<in> set new \<longleftrightarrow> T07 \<in> ?sel \<and>
          (T06 \<in> ?sel \<longrightarrow> test_results (test_result (snd (?D s))) T06 \<noteq> Some PyNone)"
      by blast
    show ?thesis
      unfolding u asked_iff [OF n(1)] using False n(2,3) by simp
  next
    case True
    obtain r s1 where o: "operator_check T05 p5 s = (r, s1)"
      by (cases "operator_check T05 p5 s")
    from operator_check_effect [of T05 p5 s] o
    obtain ps where e: "prompts s1 = prompts s @ (p5 @ '' (y/n): '') # ps"
      "set ps \<subseteq> {p5 @ '' (y/n): '', continue_prompt}"
      "tests_to_run (test_result s1) = ?sel"
      "\<forall>t. t \<noteq> T05 \<longrightarrow> test_results (test_result s1) t = test_results (test_result s) t"
      and alt: "(\<exists>b. r = Inr b \<and> test_results (test_result s1) T05 = Some (PyBool b)) \<or>
                ((\<exists>a. r = Inl a) \<and>
                  test_results (test_result s1) T05 = test_results (test_result s) T05)"
      by auto
    have n6: "p6 @ '' (y/n): '' \<notin> set ((p5 @ '' (y/n): '') # ps)"
      using e(2) d6c d56 by auto
    have n7: "p7 @ '' (y/n): '' \<notin> set ((p5 @ '' (y/n): '') # ps)"
      using e(2) d7c d57 by auto
    have stop: ?thesis
      if u: "U s = (x, s1)"
        and np: "test_results (test_result s1) T05 \<noteq> Some (PyBool True)" for x
      unfolding u using asked_iff [OF e(1)] n6 n7 np e(4) True by simp
    show ?thesis
    proof (cases r)
      case (Inl a)
      then have u: "U s = (Inl a, s1)"
        using True o
        by (simp add: U_def selected_def get_def andthen_def)
      from Inl alt f5 True have "test_results (test_result s1) T05 = Some PyNone" by auto
      then show ?thesis using stop [OF u] by simp
    next
      case (Inr b)
      with alt have r5: "test_results (test_result s1) T05 = Some (PyBool b)" by auto
      show ?thesis
      proof (cases b)
        case False
        then have u: "U s = (Inr (), s1)"
          using True o Inr
          by (simp add: U_def selected_def get_def andthen_def when_do_def return_def)
        from r5 False show ?thesis using stop [OF u] by simp
      next
        case b: True
        then have u: "U s = ?D s1"
          using True o Inr
          by (simp add: U_def selected_def get_def andthen_def when_do_def)
        have f6': "T06 \<in> tests_to_run (test_result s1) \<longrightarrow>
                   test_results (test_result s1) T06 = Some PyNone"
          using f6 e(3,4) by simp
        from dependent_checks_effect [OF f6' d6c d7c d67]
        obtain new where n: "prompts (snd (?D s1)) = prompts s1 @ new"
          "p6 @ '' (y/n): '' \<in> set new \<longleftrightarrow> T06 \<in> ?sel"
          "p7 @ '' (y/n): '' \<in> set new \<longleftrightarrow> T07 \<in> ?sel \<and>
              (T06 \<in> ?sel \<longrightarrow> test_results (test_result (snd (?D s1))) T06 \<noteq> Some PyNone)"
          "test_results (test_result (snd (?D s1))) T05 = test_results (test_result s1) T05"
          unfolding e(3) by blast
        have p: "prompts (snd (?D s1)) = prompts s @ (((p5 @ '' (y/n): '') # ps) @ new)"
          using n(1) e(1) by simp
        have t5: "test_results (test_result (snd (?D s1))) T05 = Some (PyBool True)"
          using n(4) r5 b by simp
        show ?thesis
          unfolding u asked_iff [OF p] using n(2,3) n6 n7 t5 True by auto
      qed
    qed
  qed
  from main excl show ?thesis by blast
qed

text \<open>
  C7. Let T05 and T06 be unset when the interface group starts, if they are selected
  (as they are in a new ledger). The operator is asked the T06 question exactly when T06
  is selected and T05 is not selected or has passed; the T07 question exactly when T07 is
  selected, T05 is not selected or has passed, and T06 has not ended the session. When T05
  is selected and has not passed, the entries of T06 and T07 are left as they were
  (unset, when selected). And \<open>save_to_excel\<close> leaves unset entries out: the
  \<open>overall_pass\<close> it computes is the one of the ledger without them.
\<close>

theorem ui_dependency:
  assumes f5: "T05 \<in> tests_to_run (test_result s) \<longrightarrow>
               test_results (test_result s) T05 = Some PyNone"
    and f6: "T06 \<in> tests_to_run (test_result s) \<longrightarrow>
             test_results (test_result s) T06 = Some PyNone"
  shows "(asked ''Press a button. Does the button show on dmesg?'' s (snd (ui_tests s)) \<longleftrightarrow>
            T06 \<in> tests_to_run (test_result s) \<and>
            (T05 \<notin> tests_to_run (test_result s) \<or>
             test_results (test_result (snd (ui_tests s))) T05 = Some (PyBool True))) \<and>
         (asked ''Was your voice successfully transcribed?'' s (snd (ui_tests s)) \<longleftrightarrow>
            T07 \<in> tests_to_run (test_result s) \<and>
            (T05 \<notin> tests_to_run (test_result s) \<or>
             test_results (test_result (snd (ui_tests s))) T05 = Some (PyBool True)) \<and>
            (T06 \<in> tests_to_run (test_result s) \<longrightarrow>
               test_results (test_result (snd (ui_tests s))) T06 \<noteq> Some PyNone)) \<and>
         (T05 \<in> tests_to_run (test_result s) \<and>
          test_results (test_result (snd (ui_tests s))) T05 \<noteq> Some (PyBool True) \<longrightarrow>
            test_results (test_result (snd (ui_tests s))) T06 = test_results (test_result s) T06 \<and>
            test_results (test_result (snd (ui_tests s))) T07 = test_results (test_result s) T07) \<and>
         (\<forall>x t. test_results (test_result x) t = Some PyNone \<longrightarrow>
            overall_pass (test_result (snd (save_to_excel x))) =
              compute_overall_pass
                ((test_result x)\<lparr>test_results := (test_results (test_result x))(t := None)\<rparr>))"
proof -
  have d5c: "''Wait for WIFI UI to show up. Does the WIFI UI appear?'' @ '' (y/n): ''
               \<noteq> continue_prompt"
    by (simp add: continue_prompt_def)
  have d6c: "''Press a button. Does the button show on dmesg?'' @ '' (y/n): '' \<noteq> continue_prompt"
    by (simp add: continue_prompt_def)
  have d7c: "''Was your voice successfully transcribed?'' @ '' (y/n): '' \<noteq> continue_prompt"
    by (simp add: continue_prompt_def)
  have d56: "''Wait for WIFI UI to show up. Does the WIFI UI appear?''
               \<noteq> ''Press a button. Does the button show on dmesg?''"
    by simp
  have d57: "''Wait for WIFI UI to show up. Does the WIFI UI appear?''
               \<noteq> ''Was your voice successfully transcribed?''"
    by simp
  have d67: "''Press a button. Does the button show on dmesg?''
               \<noteq> ''Was your voice successfully transcribed?''"
    by simp
  show ?thesis
    unfolding ui_tests_def by (rule ui_general [OF f5 f6 d5c d6c d7c d56 d57 d67])
qed

lemma scenario_C:
  "test_results (test_result (snd (ui_tests (fresh_state {T05, T06} [''n'', ''y''] ssh_down fw_all_ok))))
     T05 = Some (PyBool False) \<and>
   test_results (test_result (snd (ui_tests (fresh_state {T05, T06} [''n'', ''y''] ssh_down fw_all_ok))))
     T06 = Some PyNone \<and>
   fst (ui_tests (fresh_state {T05, T06} [''n'', ''y''] ssh_down fw_all_ok)) = Inr ()"
  by (simp add: eval_defs)

theorem ui_dependency_witness:
  "test_results (test_result (fresh_state {T05, T06} [''n'', ''y''] ssh_down fw_all_ok)) T05
     = Some PyNone \<and>
   test_results (test_result (fresh_state {T05, T06} [''n'', ''y''] ssh_down fw_all_ok)) T06
     = Some PyNone \<and>
   test_results (test_result (snd (ui_tests (fresh_state {T05, T06} [''n'', ''y''] ssh_down fw_all_ok))))
     T05 = Some (PyBool False) \<and>
   test_results (test_result (snd (ui_tests (fresh_state {T05, T06} [''n'', ''y''] ssh_down fw_all_ok))))
     T06 = Some PyNone \<and>
   \<not> asked ''Press a button. Does the button show on dmesg?''
       (fresh_state {T05, T06} [''n'', ''y''] ssh_down fw_all_ok)
       (snd (ui_tests (fresh_state {T05, T06} [''n'', ''y''] ssh_down fw_all_ok)))"
proof -
  let ?s = "fresh_state {T05, T06} [''n'', ''y''] ssh_down fw_all_ok"
  have r: "test_results (test_result ?s) t = Some (if t \<in> {T05, T06} then PyNone else SKIPPED)" for t
    by (simp add: fresh_state_def init_results)
  have sel: "tests_to_run (test_result ?s) = {T05, T06}"
    by (simp add: fresh_state_def init_fields)
  have f5: "T05 \<in> tests_to_run (test_result ?s) \<longrightarrow> test_results (test_result ?s) T05 = Some PyNone"
    by (simp add: r)
  have f6: "T06 \<in> tests_to_run (test_result ?s) \<longrightarrow> test_results (test_result ?s) T06 = Some PyNone"
    by (simp add: r)
  note a = ui_dependency [OF f5 f6, THEN conjunct1]
  from scenario_C have f: "test_results (test_result (snd (ui_tests ?s))) T05 = Some (PyBool False)"
    by (rule conjunct1)
  from a have na: "\<not> asked ''Press a button. Does the button show on dmesg?'' ?s
                           (snd (ui_tests ?s))"
    unfolding f sel by simp
  from na scenario_C r [of T05] r [of T06] show ?thesis by simp
qed

section \<open>Each test is recorded once\<close>

lemma hoareD: "hoare P m Q \<Longrightarrow> P s \<Longrightarrow> Q (snd (m s))"
  by (simp add: hoare_def)

lemma once_mono: "once sel k s \<Longrightarrow> k \<le> k' \<Longrightarrow> once sel k' s"
  by (fastforce simp: once_def)

lemma hoare_andthen:
  assumes "hoare P m M" "\<And>x. hoare M (f x) Q" "\<And>s. M s \<Longrightarrow> Q s"
  shows "hoare P (andthen m f) Q"
  unfolding hoare_def
proof (intro allI impI)
  fix s assume "P s"
  with assms(1) have m: "M (snd (m s))" by (simp add: hoare_def)
  show "Q (snd (andthen m f s))"
  proof (cases "m s")
    case (Pair r s1)
    with m have "M s1" by simp
    with assms(2,3) Pair show ?thesis
      by (cases r) (auto simp: andthen_def hoare_def)
  qed
qed

lemma hoare_try_except:
  assumes "hoare P m M" "\<And>e. hoare M (h e) Q" "\<And>s. M s \<Longrightarrow> Q s"
  shows "hoare P (try_except m h) Q"
  unfolding hoare_def
proof (intro allI impI)
  fix s assume "P s"
  with assms(1) have m: "M (snd (m s))" by (simp add: hoare_def)
  show "Q (snd (try_except m h s))"
  proof (cases "m s")
    case (Pair r s1)
    with m have "M s1" by simp
    with assms(2,3) Pair show ?thesis
      by (auto simp: try_except_def hoare_def split: sum.splits abrupt.splits)
  qed
qed

lemma hoare_weaken:
  "hoare P' m Q' \<Longrightarrow> (\<And>s. P s \<Longrightarrow> P' s) \<Longrightarrow> (\<And>s. Q' s \<Longrightarrow> Q s) \<Longrightarrow> hoare P m Q"
  by (simp add: hoare_def)

lemma hoare_preserves: "sat (preserves I) m \<Longrightarrow> hoare I m I"
  by (simp add: hoare_def sat_def preserves_def)

lemma hoare_return: "(\<And>s. P s \<Longrightarrow> Q s) \<Longrightarrow> hoare P (return x) Q"
  by (simp add: hoare_def return_def)

lemma hoare_when_do:
  "(b \<Longrightarrow> hoare P m Q) \<Longrightarrow> (\<And>s. P s \<Longrightarrow> Q s) \<Longrightarrow> hoare P (when_do b m) Q"
  by (simp add: when_do_def hoare_return)

lemma hoare_get:
  "(\<And>v. hoare (\<lambda>s. P s \<and> g s = v) (f v) Q) \<Longrightarrow> hoare P (andthen (get g) f) Q"
  by (simp add: hoare_def andthen_def get_def)

text \<open>Statements that leave the ledger alone keep the invariant.\<close>

lemma keeps_imp_once:
  assumes "sat keeps_ledger m"
  shows "sat (preserves (once sel k)) m"
  unfolding sat_def
proof
  fix s
  from satD [OF assms, of s]
  show "preserves (once sel k) s (outcome (fst (m s))) (snd (m s))"
    by (simp add: keeps_ledger_def preserves_def once_def)
qed

lemmas io_once = io_keeps [THEN keeps_imp_once]

lemma once_add_note: "sat (preserves (once sel k)) (add_note t)"
  by (simp add: sat_def add_note_def modify_def preserves_def once_def)

lemma once_modify_ssh: "sat (preserves (once sel k)) (modify (\<lambda>s. s\<lparr>v_ssh := x\<rparr>))"
  by (simp add: sat_def modify_def preserves_def once_def)

lemma once_modify_restart:
  "sat (preserves (once sel k)) (modify (\<lambda>s. s\<lparr>restart_test := x\<rparr>))"
  by (simp add: sat_def modify_def preserves_def once_def)

lemma once_modify_notes:
  "sat (preserves (once sel k))
     (modify (\<lambda>s. s\<lparr>test_result := (test_result s)\<lparr>notes_text := x\<rparr>\<rparr>))"
  by (simp add: sat_def modify_def preserves_def once_def)

lemma once_save_to_excel: "sat (preserves (once sel k)) save_to_excel"
  by (simp add: sat_def save_to_excel_def preserves_def once_def Let_def)

lemmas once_intros = sat_intros io_once once_add_note once_modify_ssh once_modify_restart
  once_modify_notes once_save_to_excel skipped_raise

lemma once_set_test_result:
  assumes "tid \<in> sel" "k \<le> run_order tid"
  shows "hoare (once sel k) (set_test_result tid r d n) (once sel (Suc (run_order tid)))"
  unfolding hoare_def
proof (intro allI impI)
  fix s assume o: "once sel k s"
  obtain name where nm: "map_of TEST_IDS tid = Some name" using map_of_TEST_IDS by blast
  have lt: "\<forall>e \<in> set (log_file (test_result s)). run_order (le_test e) < run_order tid"
    using o assms(2) by (fastforce simp: once_def)
  then have nl: "tid \<notin> le_test ` set (log_file (test_result s))" by auto
  show "once sel (Suc (run_order tid)) (snd (set_test_result tid r d n s))"
    using o assms lt
    by (cases n)
       (auto simp: set_test_result_def Let_def nm once_def sorted_wrt_append less_Suc_eq)
qed


lemma hoare_record_then:
  assumes "tid \<in> sel" "k \<le> run_order tid" "Suc (run_order tid) \<le> k'"
    and "\<And>x. hoare (once sel (Suc (run_order tid))) (f x) (once sel k')"
  shows "hoare (once sel k) (andthen (set_test_result tid r d n) f) (once sel k')"
  using once_set_test_result [OF assms(1,2)] assms(4)
proof (rule hoare_andthen)
  fix s assume "once sel (Suc (run_order tid)) s"
  then show "once sel k' s" using assms(3) by (rule once_mono)
qed

lemma hoare_record:
  assumes "tid \<in> sel" "k \<le> run_order tid" "Suc (run_order tid) \<le> k'"
  shows "hoare (once sel k) (set_test_result tid r d n) (once sel k')"
  using once_set_test_result [OF assms(1,2)]
proof (rule hoare_weaken)
  fix s assume "once sel (Suc (run_order tid)) s"
  then show "once sel k' s" using assms(3) by (rule once_mono)
qed

lemma hoare_after:
  assumes "sat (preserves (once sel k)) m" "k \<le> k'"
    and "\<And>x. hoare (once sel k) (f x) (once sel k')"
  shows "hoare (once sel k) (andthen m f) (once sel k')"
  using hoare_preserves [OF assms(1)] assms(3)
proof (rule hoare_andthen)
  fix s assume "once sel k s"
  then show "once sel k' s" using assms(2) by (rule once_mono)
qed

lemma hoare_neutral:
  assumes "sat (preserves (once sel k)) m" "k \<le> k'"
  shows "hoare (once sel k) m (once sel k')"
  using hoare_preserves [OF assms(1)]
proof (rule hoare_weaken)
  fix s assume "once sel k s"
  then show "once sel k' s" using assms(2) by (rule once_mono)
qed

lemma hoare_once_return: "k \<le> k' \<Longrightarrow> hoare (once sel k) (return x) (once sel k')"
  by (rule hoare_return) (rule once_mono)

lemma hoare_if:
  "(c \<Longrightarrow> hoare P a Q) \<Longrightarrow> (\<not> c \<Longrightarrow> hoare P b Q) \<Longrightarrow> hoare P (if c then a else b) Q"
  by simp

lemma hoare_case_prod:
  "(\<And>a b. hoare P (f a b) Q) \<Longrightarrow> hoare P (case p of (a, b) \<Rightarrow> f a b) Q"
  by (cases p) simp

lemma hoare_case_option:
  "(x = None \<Longrightarrow> hoare P a Q) \<Longrightarrow> (\<And>y. x = Some y \<Longrightarrow> hoare P (f y) Q)
     \<Longrightarrow> hoare P (case x of None \<Rightarrow> a | Some y \<Rightarrow> f y) Q"
  by (cases x) simp_all

lemma hoare_Let: "hoare P (f x) Q \<Longrightarrow> hoare P (Let x f) Q"
  by simp

lemma hoare_if_selected:
  assumes "tid \<in> sel \<Longrightarrow> hoare (once sel k) m (once sel k')" "k \<le> k'"
  shows "hoare (once sel k) (if_selected tid m) (once sel k')"
  unfolding hoare_def
proof (intro allI impI)
  fix s assume o: "once sel k s"
  show "once sel k' (snd (if_selected tid m s))"
  proof (cases "tid \<in> tests_to_run (test_result s)")
    case False
    then show ?thesis
      using once_mono [OF o assms(2)]
      by (simp add: if_selected_def selected_def get_def andthen_def when_do_def return_def)
  next
    case True
    then have e: "if_selected tid m s = m s"
      by (simp add: if_selected_def selected_def get_def andthen_def when_do_def)
    from True o have "tid \<in> sel" by (simp add: once_def)
    from hoareD [OF assms(1) [OF this] o] show ?thesis by (simp add: e)
  qed
qed

lemma hoare_selected:
  assumes "\<And>b. (b \<Longrightarrow> tid \<in> sel) \<Longrightarrow> hoare (once sel k) (f b) Q"
  shows "hoare (once sel k) (andthen (selected tid) f) Q"
  unfolding hoare_def
proof (intro allI impI)
  fix s :: state
  assume o: "once sel k s"
  let ?b = "tid \<in> tests_to_run (test_result s)"
  have e: "andthen (selected tid) f s = f ?b s"
    by (simp add: selected_def get_def andthen_def)
  from o have "?b \<Longrightarrow> tid \<in> sel" by (simp add: once_def)
  from hoareD [OF assms [OF this] o] show "Q (snd (andthen (selected tid) f s))"
    by (simp add: e)
qed

lemma hoare_once_abrupt: "k \<le> k' \<Longrightarrow> hoare (once sel k) (abrupt a) (once sel k')"
  by (simp add: hoare_def abrupt_def once_mono)

lemma hoare_then:
  assumes "hoare (once sel k) m (once sel j)" "j \<le> k'"
    and "\<And>x. hoare (once sel j) (f x) (once sel k')"
  shows "hoare (once sel k) (andthen m f) (once sel k')"
  using assms(1,3)
proof (rule hoare_andthen)
  fix s assume "once sel j s"
  then show "once sel k' s" using assms(2) by (rule once_mono)
qed

lemmas hoare_intros = hoare_if_selected hoare_record_then hoare_record hoare_after
  hoare_once_return hoare_once_abrupt hoare_if hoare_case_prod hoare_case_option hoare_Let
  once_intros

lemma hoare_operator_check:
  assumes "tid \<in> sel" "k \<le> run_order tid" "Suc (run_order tid) \<le> k'"
  shows "hoare (once sel k) (operator_check tid p) (once sel k')"
  unfolding operator_check_def
  using assms by (intro hoare_intros) simp_all

lemma hoare_visual_check:
  assumes "k \<le> run_order tid" "Suc (run_order tid) \<le> k'"
  shows "hoare (once sel k) (visual_check tid p) (once sel k')"
  unfolding visual_check_def
proof (rule hoare_if_selected)
  assume t: "tid \<in> sel"
  show "hoare (once sel k) (andthen (operator_check tid p) (\<lambda>_. return ())) (once sel k')"
    by (rule hoare_then [OF hoare_operator_check [OF t assms(1) order_refl]])
       (simp_all add: hoare_once_return assms)
next
  from assms show "k \<le> k'" by simp
qed

lemma hoare_test_T09:
  assumes "k \<le> 9" "10 \<le> k'"
  shows "hoare (once sel k) test_T09 (once sel k')"
  unfolding test_T09_def
  using assms by (intro hoare_intros) simp_all

lemma hoare_test_T10:
  assumes "k \<le> 10" "11 \<le> k'"
  shows "hoare (once sel k) test_T10 (once sel k')"
  unfolding test_T10_def
  using assms by (intro hoare_intros) simp_all

lemma hoare_test_T11:
  assumes "k \<le> 11" "12 \<le> k'"
  shows "hoare (once sel k) test_T11 (once sel k')"
  unfolding test_T11_def
  using assms by (intro hoare_intros) simp_all

lemma once_on_ssh_error:
  "sat (preserves (once sel k)) retry \<Longrightarrow> sat (preserves (once sel k)) otherwise \<Longrightarrow>
   sat (preserves (once sel k)) (on_ssh_error retry otherwise)"
  unfolding on_ssh_error_def by (intro once_intros) simp_all

lemma hoare_test_T12:
  assumes "k \<le> 12" "13 \<le> k'"
  shows "hoare (once sel k) test_T12 (once sel k')"
  unfolding test_T12_def
  using assms by (intro hoare_intros once_on_ssh_error) simp_all


lemma set_test_result_v_ssh: "v_ssh (snd (set_test_result tid r d n s)) = v_ssh s"
  by (simp add: set_test_result_def Let_def split: option.splits)

lemma once_cong: "test_result s' = test_result s \<Longrightarrow> once sel k s' = once sel k s"
  by (simp add: once_def)

lemma hoare_retry_block:
  assumes t: "tid \<in> sel" and k: "k \<le> run_order tid" and k': "Suc (run_order tid) \<le> k'"
    and m: "\<And>s0. hoare (once sel k) (m s0) (once sel k')"
  shows "hoare (once sel k)
           (andthen (on_ssh_error (run_command c)
                       (andthen (elapsed st) (\<lambda>d. set_test_result tid r1 d1 (Some d))))
              (\<lambda>_. andthen (get (\<lambda>s. s)) (\<lambda>s0. when_do (v_ssh s0 \<noteq> None \<and> b s0) (m s0))))
           (once sel k')"
proof -
  let ?Q = "\<lambda>s. once sel k s \<or> (once sel (Suc (run_order tid)) s \<and> v_ssh s = None)"
  let ?other = "andthen (elapsed st) (\<lambda>d. set_test_result tid r1 d1 (Some d))"
  have Qk': "?Q s \<Longrightarrow> once sel k' s" for s
    using k k' by (auto intro: once_mono)
  have other: "hoare (\<lambda>s. once sel k s \<and> v_ssh s = None) ?other ?Q"
    unfolding hoare_def
  proof (intro allI impI)
    fix s assume a: "once sel k s \<and> v_ssh s = None"
    let ?s1 = "s\<lparr>ticks := Suc (ticks s)\<rparr>"
    let ?d = "py_int (clock s (ticks s) - st)"
    have e: "?other s = set_test_result tid r1 d1 (Some ?d) ?s1"
      by (simp add: elapsed_def andthen_def time_time_def return_def)
    from a have "once sel k ?s1" by (simp add: once_def)
    from hoareD [OF once_set_test_result [OF t k] this]
    have "once sel (Suc (run_order tid)) (snd (?other s))" by (simp add: e)
    moreover from a have "v_ssh (snd (?other s)) = None"
      by (simp add: e set_test_result_v_ssh)
    ultimately show "?Q (snd (?other s))" by simp
  qed
  have retry: "hoare (once sel k) (run_command c) (once sel k)"
    by (rule hoare_preserves) (intro once_intros)
  have branch: "hoare (\<lambda>s. once sel k s \<and> v_ssh s = ssh)
                  (if ssh \<noteq> None then run_command c else ?other) ?Q" for ssh
  proof (cases "ssh = None")
    case True
    then show ?thesis using other by simp
  next
    case False
    then show ?thesis using retry by (simp add: hoare_def)
  qed
  have setssh: "hoare (once sel k) (modify (\<lambda>s. s\<lparr>v_ssh := ssh\<rparr>))
                  (\<lambda>s. once sel k s \<and> v_ssh s = ssh)" for ssh
    by (simp add: hoare_def modify_def once_def)
  have tail: "hoare (once sel k)
                (andthen (modify (\<lambda>s. s\<lparr>v_ssh := ssh\<rparr>))
                   (\<lambda>_. if ssh \<noteq> None then run_command c else ?other)) ?Q" for ssh
    by (rule hoare_andthen [OF setssh branch]) simp
  have neutral: "sat (preserves (once sel k)) x \<Longrightarrow> (\<And>v. hoare (once sel k) (f v) ?Q)
                   \<Longrightarrow> hoare (once sel k) (andthen x f) ?Q" for x :: "'a comp" and f
    by (rule hoare_andthen [OF hoare_preserves]) simp_all
  have first: "hoare (once sel k) (on_ssh_error (run_command c) ?other) ?Q"
    unfolding on_ssh_error_def
    by (intro neutral hoare_when_do tail once_intros) simp_all
  have second: "hoare ?Q (andthen (get (\<lambda>s. s))
                   (\<lambda>s0. when_do (v_ssh s0 \<noteq> None \<and> b s0) (m s0))) (once sel k')"
    unfolding hoare_def
  proof (intro allI impI)
    fix s :: state
    assume q: "?Q s"
    let ?f = "\<lambda>s0. when_do (v_ssh s0 \<noteq> None \<and> b s0) (m s0)"
    show "once sel k' (snd (andthen (get (\<lambda>s. s)) ?f s))"
    proof (cases "v_ssh s \<noteq> None \<and> b s")
      case True
      with q have "once sel k s" by auto
      from hoareD [OF m this] True show ?thesis by (simp add: andthen_def get_def when_do_def)
    next
      case False
      with Qk' [OF q] show ?thesis by (auto simp: andthen_def get_def when_do_def return_def)
    qed
  qed
  show ?thesis
    by (rule hoare_andthen [OF first second]) (rule Qk')
qed

lemma hoare_test_T13:
  assumes "k \<le> 13" "14 \<le> k'"
  shows "hoare (once sel k) test_T13 (once sel k')"
  unfolding test_T13_def
  using assms
  by (intro hoare_if_selected hoare_after hoare_retry_block hoare_Let hoare_record once_intros)
     simp_all

lemma hoare_test_T14:
  assumes "k \<le> 14" "15 \<le> k'"
  shows "hoare (once sel k) test_T14 (once sel k')"
  unfolding test_T14_def
  using assms
  by (intro hoare_if_selected hoare_after hoare_retry_block hoare_Let hoare_record once_intros)
     simp_all


lemma hoare_mark:
  assumes "k \<le> run_order tid" "Suc (run_order tid) \<le> k'"
  shows "hoare (once sel k) (if_selected tid (set_test_result tid r d n)) (once sel k')"
  using assms by (intro hoare_if_selected hoare_record) simp_all

lemma hoare_mark_ssh_failed:
  assumes "k \<le> 9" "15 \<le> k'"
  shows "hoare (once sel k) (mark_ssh_failed ssh_test_ids) (once sel k')"
  unfolding ssh_test_ids_def mark_ssh_failed.simps
  using assms
  apply -
  apply (rule hoare_then [where j = 10], rule hoare_mark, simp, simp, simp)
  apply (rule hoare_then [where j = 11], rule hoare_mark, simp, simp, simp)
  apply (rule hoare_then [where j = 12], rule hoare_mark, simp, simp, simp)
  apply (rule hoare_then [where j = 13], rule hoare_mark, simp, simp, simp)
  apply (rule hoare_then [where j = 14], rule hoare_mark, simp, simp, simp)
  apply (rule hoare_then [where j = 15], rule hoare_mark, simp, simp, simp)
  apply (rule hoare_once_return, simp)
  done

lemma once_check_usb_devices: "sat (preserves (once sel k)) check_usb_devices"
  unfolding check_usb_devices_def by (intro once_intros once_on_ssh_error)

lemma hoare_ssh_tests_body:
  assumes "k \<le> 9" "15 \<le> k'"
  shows "hoare (once sel k) ssh_tests_body (once sel k')"
  unfolding ssh_tests_body_def
  using assms
  apply -
  apply (rule hoare_after, rule once_check_usb_devices, simp)
  apply (rule hoare_then [where j = 10], rule hoare_test_T09, simp, simp, simp)
  apply (rule hoare_then [where j = 11], rule hoare_test_T10, simp, simp, simp)
  apply (rule hoare_then [where j = 12], rule hoare_test_T11, simp, simp, simp)
  apply (rule hoare_then [where j = 13], rule hoare_test_T12, simp, simp, simp)
  apply (rule hoare_then [where j = 14], rule hoare_test_T13, simp, simp, simp)
  apply (rule hoare_then [where j = 15], rule hoare_test_T14, simp, simp, simp)
  apply (rule hoare_neutral)
   apply (intro once_intros)
  apply simp
  done

lemma hoare_perform_ssh_tests:
  assumes "k \<le> 9" "15 \<le> k'"
  shows "hoare (once sel k) perform_ssh_tests (once sel k')"
  unfolding perform_ssh_tests_def
  using assms
  apply -
  apply (rule hoare_after, intro once_intros, simp)
  apply (rule hoare_after, intro once_intros, simp)
  apply (rule hoare_if)
   apply (rule hoare_after, intro once_intros, simp)
   apply (rule hoare_then [where j = 15], rule hoare_mark_ssh_failed, simp, simp, simp)
   apply (rule hoare_once_return, simp)
  apply (rule hoare_try_except [where M = "once sel 15"])
    apply (rule hoare_ssh_tests_body, simp, simp)
   apply (rule hoare_neutral, intro once_intros, simp)
  apply (erule once_mono, simp)
  done

lemma hoare_ssh_step:
  assumes "k \<le> 9" "15 \<le> k'"
  shows "hoare (once sel k) ssh_step (once sel k')"
  unfolding ssh_step_def
  using assms
  apply -
  apply (rule hoare_after, intro once_intros, simp)
  apply (rule hoare_when_do)
   apply (rule hoare_then [where j = 15], rule hoare_perform_ssh_tests, simp, simp, simp)
   apply (rule hoare_neutral, intro once_intros, simp)
  apply (erule once_mono, simp)
  done


lemma hoare_fail_T01:
  assumes "T01 \<in> sel" "k \<le> 1" "2 \<le> k'"
  shows "hoare (once sel k) (fail_T01 st d) (once sel k')"
  unfolding fail_T01_def
  using assms by (intro hoare_intros) simp_all

lemma fail_T01_not_True: "fst (fail_T01 st d s) \<noteq> Inr True"
  by (simp add: fail_T01_def andthen_def elapsed_def time_time_def return_def
        set_test_result_def Let_def split: option.splits)

lemma upload_python_files_once:
  assumes "T01 \<in> sel" "k \<le> 1"
  shows "(fst (upload_python_files fs st s) = Inr True \<longrightarrow>
            snd (upload_python_files fs st s) = s) \<and>
         (once sel k s \<longrightarrow> once sel 2 (snd (upload_python_files fs st s)))"
proof (induction fs)
  case Nil
  show ?case using assms(2) by (auto intro: once_mono)
next
  case (Cons f fs)
  have h: "once sel k s \<Longrightarrow> once sel 2 (snd (fail_T01 st d s))" for d
    using hoareD [OF hoare_fail_T01 [OF assms order_refl]] by simp
  from Cons show ?case
    by (simp add: fail_T01_not_True h split: ampy_outcome.splits)
qed

lemma hoare_upload_tail:
  assumes t: "T01 \<in> sel" and k: "k \<le> 1" and k': "2 \<le> k'"
    and m: "hoare (once sel k) m (once sel k')"
  shows "hoare (once sel k)
           (andthen (upload_python_files fs st) (\<lambda>uploaded. if uploaded then m else return False))
           (once sel k')"
  unfolding hoare_def
proof (intro allI impI)
  fix s assume o: "once sel k s"
  let ?f = "\<lambda>uploaded. if uploaded then m else return False"
  obtain r s1 where u: "upload_python_files fs st s = (r, s1)"
    by (cases "upload_python_files fs st s")
  from upload_python_files_once [OF t k, of fs st s] u o
  have a: "r = Inr True \<longrightarrow> s1 = s" and b: "once sel 2 s1" by simp_all
  from b k' have b': "once sel k' s1" by (rule once_mono)
  show "once sel k' (snd (andthen (upload_python_files fs st) ?f s))"
  proof (cases "r = Inr True")
    case True
    with a have "s1 = s" by simp
    with True u hoareD [OF m o] show ?thesis by (simp add: andthen_def)
  next
    case False
    with u b' show ?thesis
      by (cases r) (auto simp: andthen_def return_def)
  qed
qed

lemma hoare_upload_firmware_wipe:
  assumes "T01 \<in> sel" "k \<le> 1" "2 \<le> k'"
  shows "hoare (once sel k) upload_firmware_wipe (once sel k')"
  unfolding upload_firmware_wipe_def
  using assms
  by (intro hoare_after hoare_if hoare_fail_T01 hoare_upload_tail hoare_record_then
        hoare_once_return once_intros)
     simp_all

lemma hoare_firmware_step:
  assumes "k \<le> 1" "2 \<le> k'"
  shows "hoare (once sel k) firmware_step (once sel k')"
  unfolding firmware_step_def
proof (rule hoare_if_selected)
  assume t: "T01 \<in> sel"
  show "hoare (once sel k)
     (andthen (wait_for_enter ''Put the board into bootloader mode and connect to computer.'')
       (\<lambda>_. andthen upload_firmware_wipe
              (\<lambda>firmware_success.
                  when_do (\<not> firmware_success)
                   (andthen
                     (modify (\<lambda>s. s\<lparr>test_result :=
                        (test_result s)\<lparr>notes_text := ''Firmware upload failed''\<rparr>\<rparr>))
                     (\<lambda>_. andthen save_to_excel (\<lambda>_. abrupt Continue))))))
     (once sel k')"
    using assms
    apply -
    apply (rule hoare_after, intro once_intros, simp)
    apply (rule hoare_then [where j = 2], rule hoare_upload_firmware_wipe [OF t], simp, simp, simp)
    apply (rule hoare_neutral, intro once_intros, simp)
    done
next
  from assms show "k \<le> k'" by simp
qed

lemma once_hardware_assembly: "sat (preserves (once sel k)) hardware_assembly"
  unfolding hardware_assembly_def by (intro once_intros)

lemma hoare_visual_checks:
  assumes "k \<le> 2" "5 \<le> k'"
  shows "hoare (once sel k) visual_checks (once sel k')"
  unfolding visual_checks_def
  using assms
  apply -
  apply (rule hoare_then [where j = 3], rule hoare_visual_check, simp, simp, simp)
  apply (rule hoare_then [where j = 4], rule hoare_visual_check, simp, simp, simp)
  apply (rule hoare_visual_check, simp, simp)
  done

lemma hoare_ui_tests:
  assumes "k \<le> 5" "8 \<le> k'"
  shows "hoare (once sel k) ui_tests (once sel k')"
  unfolding ui_tests_def
proof (rule hoare_selected)
  fix b assume t: "b \<Longrightarrow> T05 \<in> sel"
  let ?p = "''Wait for WIFI UI to show up. Does the WIFI UI appear?''"
  have first: "hoare (once sel k) (if b then operator_check T05 ?p else return False) (once sel 6)"
  proof (cases b)
    case True
    with hoare_operator_check [OF t [OF True], of k 6 ?p] assms(1) show ?thesis by simp
  next
    case False
    with assms(1) show ?thesis by (simp add: hoare_once_return)
  qed
  show "hoare (once sel k)
          (andthen (if b then operator_check T05 ?p else return False)
             (\<lambda>ui_appears. when_do (ui_appears \<or> \<not> b)
                (andthen (visual_check T06 ''Press a button. Does the button show on dmesg?'')
                   (\<lambda>_. visual_check T07 ''Was your voice successfully transcribed?''))))
          (once sel k')"
    using assms
    apply -
    apply (rule hoare_then [where j = 6], rule first, simp)
    apply (rule hoare_when_do)
     apply (rule hoare_then [where j = 7], rule hoare_visual_check, simp, simp, simp)
     apply (rule hoare_visual_check, simp, simp)
    apply (erule once_mono, simp)
    done
qed

lemma hoare_run_tests:
  assumes "k \<le> 1" "15 \<le> k'"
  shows "hoare (once sel k) run_tests (once sel k')"
  unfolding run_tests_def local_tests_def
  using assms
  apply -
  apply (rule hoare_then [where j = 8])
    apply (rule hoare_then [where j = 2], rule hoare_firmware_step, simp, simp, simp)
    apply (rule hoare_after, rule once_hardware_assembly, simp)
    apply (rule hoare_then [where j = 5], rule hoare_visual_checks, simp, simp, simp)
    apply (rule hoare_ui_tests, simp, simp)
   apply simp
  apply (rule hoare_ssh_step, simp, simp)
  done


lemma once_modify_trace:
  "sat (preserves (once sel k)) (modify (\<lambda>s. s\<lparr>ssh_trace := ssh_trace s @ [ev]\<rparr>))"
  by (simp add: sat_def modify_def preserves_def once_def)

lemma once_wrap_up: "sat (preserves (once sel k)) wrap_up"
  unfolding wrap_up_def shutdown_cm5_def
  by (intro once_intros once_modify_trace)

lemma once_main_except: "sat (preserves (once sel k)) (main_except e)"
  unfolding main_except_def by (intro once_intros)

lemma once_init: "once sel 0 (s\<lparr>test_result := TestResult_init dev sel None None,
                               restart_test := False\<rparr>)"
  by (simp add: once_def init_fields init_results)

lemma hoare_main_pass: "hoare (\<lambda>s. True) (main_pass sel dev) (once sel 15)"
proof -
  have body: "hoare (once sel 0) (try_except main_try_body main_except) (once sel 15)"
    unfolding main_try_body_def run_and_save_def
    apply (rule hoare_try_except [where M = "once sel 15"])
      apply (rule hoare_then [where j = 15])
        apply (rule hoare_then [where j = 15], rule hoare_run_tests, simp, simp, simp)
        apply (rule hoare_neutral, intro once_intros, simp)
       apply simp
      apply (rule hoare_neutral, rule once_wrap_up, simp)
     apply (rule hoare_neutral, rule once_main_except, simp)
    apply assumption
    done
  show ?thesis
    unfolding hoare_def main_pass_def
    using hoareD [OF body once_init]
    by (simp add: andthen_def modify_def)
qed

lemma sorted_ranks_distinct:
  "sorted_wrt (<) (map (\<lambda>e. run_order (le_test e)) es) \<Longrightarrow> distinct (map le_test es)"
proof (induction es)
  case Nil
  show ?case by simp
next
  case (Cons e es)
  then show ?case by (auto simp: image_iff)
qed

text \<open>
  C3 (amended). \<open>set_test_result\<close> checks nothing: whatever the entry of the test holds,
  the call returns normally and the entry holds the new result. It is the sequencer that
  records each test at most once: at the end of every pass of the main loop the log of the
  ledger holds no test twice and only selected tests, each with the status that the
  ledger still holds for it, and the entry of every other test is as \<open>__init__\<close> has set
  it (unset when selected, skipped otherwise). As every call adds a line to the log, each
  call in the pass was the first one for its test and found the entry unset.
\<close>

theorem recorded_once_per_session:
  "fst (set_test_result tid r details d s) = Inr () \<and>
   test_results (test_result (snd (set_test_result tid r details d s))) tid = Some r \<and>
   distinct (map le_test (log_file (test_result (snd (main_pass sel dev s))))) \<and>
   (\<forall>e \<in> set (log_file (test_result (snd (main_pass sel dev s)))).
      le_test e \<in> sel \<and>
      (\<exists>r. test_results (test_result (snd (main_pass sel dev s))) (le_test e) = Some r \<and>
           le_status e = status_text r)) \<and>
   (\<forall>t. t \<notin> le_test ` set (log_file (test_result (snd (main_pass sel dev s)))) \<longrightarrow>
      test_results (test_result (snd (main_pass sel dev s))) t =
        Some (if t \<in> sel then PyNone else SKIPPED))"
proof -
  obtain name where nm: "map_of TEST_IDS tid = Some name" using map_of_TEST_IDS by blast
  have a: "fst (set_test_result tid r details d s) = Inr () \<and>
     test_results (test_result (snd (set_test_result tid r details d s))) tid = Some r"
    by (cases d) (simp_all add: set_test_result_def Let_def nm)
  from hoareD [OF hoare_main_pass, where s = s and sel1 = sel and dev1 = dev]
  have o: "once sel 15 (snd (main_pass sel dev s))" by simp
  from o have "distinct (map le_test (log_file (test_result (snd (main_pass sel dev s)))))"
    by (intro sorted_ranks_distinct) (simp add: once_def)
  with a o show ?thesis by (simp add: once_def)
qed

lemma two_checks_log:
  "map le_test (log_file (test_result (snd (main_pass {T02, T03} 1 two_checks)))) = [T02, T03] \<and>
   map le_status (log_file (test_result (snd (main_pass {T02, T03} 1 two_checks)))) =
     [''PASS'', ''FAIL''] \<and>
   fst (main_pass {T02, T03} 1 two_checks) = Inl Break"
  by (simp add: main_pass_def main_try_body_def eval_defs two_checks_def wrap_up_def)

theorem recorded_once_per_session_witness:
  "map le_test (log_file (test_result (snd (main_pass {T02, T03} 1 two_checks)))) = [T02, T03] \<and>
   distinct (map le_test (log_file (test_result (snd (main_pass {T02, T03} 1 two_checks))))) \<and>
   T04 \<notin> le_test ` set (log_file (test_result (snd (main_pass {T02, T03} 1 two_checks)))) \<and>
   test_results (test_result (snd (main_pass {T02, T03} 1 two_checks))) T04 = Some SKIPPED \<and>
   fst (set_test_result T02 (PyBool False) [] None two_checks) = Inr ()"
proof -
  let ?log = "log_file (test_result (snd (main_pass {T02, T03} 1 two_checks)))"
  have l: "map le_test ?log = [T02, T03]"
    using two_checks_log by simp
  have "le_test ` set ?log = set (map le_test ?log)" by simp
  then have n: "T04 \<notin> le_test ` set ?log" unfolding l by simp
  from recorded_once_per_session
         [where tid = T02 and r = "PyBool False" and details = "[]" and d = None
            and s = two_checks and sel = "{T02, T03}" and dev = 1] l n
  show ?thesis by simp
qed

text \<open>
  C3 does not hold as it is stated: a second call for T02 is accepted and replaces the
  result, and both calls are logged; a call for T03, which is not selected, replaces
  \<open>SKIPPED\<close>.
\<close>

theorem record_twice_counterexample:
  "fst (set_test_result T02 (PyBool True) [] (Some 1) (fresh_state {T02} [] ssh_down fw_all_ok))
     = Inr () \<and>
   test_results (test_result (snd (set_test_result T02 (PyBool True) [] (Some 1)
      (fresh_state {T02} [] ssh_down fw_all_ok)))) T02 = Some (PyBool True) \<and>
   fst (set_test_result T02 (PyBool False) [] (Some 2)
      (snd (set_test_result T02 (PyBool True) [] (Some 1)
         (fresh_state {T02} [] ssh_down fw_all_ok)))) = Inr () \<and>
   test_results (test_result (snd (set_test_result T02 (PyBool False) [] (Some 2)
      (snd (set_test_result T02 (PyBool True) [] (Some 1)
         (fresh_state {T02} [] ssh_down fw_all_ok)))))) T02 = Some (PyBool False) \<and>
   map le_status (log_file (test_result (snd (set_test_result T02 (PyBool False) [] (Some 2)
      (snd (set_test_result T02 (PyBool True) [] (Some 1)
         (fresh_state {T02} [] ssh_down fw_all_ok))))))) = [''PASS'', ''FAIL''] \<and>
   test_results (test_result (fresh_state {T02} [] ssh_down fw_all_ok)) T03 = Some SKIPPED \<and>
   fst (set_test_result T03 (PyBool True) [] None (fresh_state {T02} [] ssh_down fw_all_ok))
     = Inr () \<and>
   test_results (test_result (snd (set_test_result T03 (PyBool True) [] None
      (fresh_state {T02} [] ssh_down fw_all_ok)))) T03 = Some (PyBool True)"
  by (simp add: set_test_result_def Let_def fresh_state_def init_fields init_results
        TEST_IDS_def status_text_def)

end
